theory Spec2Isabelle
  imports Complex_Main "HOL-Library.AList"
begin

section \<open>Utilities\<close>

text \<open>
  JavaScript numbers are IEEE doubles. In the AudioManager, where the exact value of a
  level matters, every arithmetic operation is modelled with its rounding: \<open>fl\<close> rounds a real
  to the nearest double, ties to the even significand, with the gradual underflow of the
  format (the last place is never below \<open>2 powr (-1074)\<close>). Overflow to an infinity is not
  modelled: the theorems keep the levels in [0, 1], where no sum or product overflows,
  and an overflowing quotient is clamped to the same value as the large number that
  stands for it here. The clock comparisons of the other components are modelled over
  the reals.
\<close>

text \<open>Rounding a real to an integer, a tie to the even neighbour.\<close>

definition rhe :: "real \<Rightarrow> int" where
  "rhe x =
     (let f = \<lfloor>x\<rfloor>; r = x - of_int f
      in if r < 1/2 then f
         else if r > 1/2 then f + 1
         else if even f then f else f + 1)"

text \<open>The exponent of the last place of the doubles around \<open>x\<close>.\<close>

definition ulp_exp :: "real \<Rightarrow> int" where
  "ulp_exp x = max (\<lfloor>log 2 \<bar>x\<bar>\<rfloor> - 52) (- 1074)"

definition fl :: "real \<Rightarrow> real" where
  "fl x =
     (if x = 0 then 0
      else of_int (rhe (x / 2 powr of_int (ulp_exp x))) * 2 powr of_int (ulp_exp x))"

definition clamp01 :: "real \<Rightarrow> real" where
  "clamp01 v = max 0 (min 1 v)"

definition lerp :: "real \<Rightarrow> real \<Rightarrow> real \<Rightarrow> real" where
  "lerp a b t = fl (a + fl (fl (b - a) * t))"

text \<open>\<^verbatim>\<open>Math.pow(x, 2)\<close> is taken to be the rounded square.\<close>

definition easeInOut :: "real \<Rightarrow> real" where
  "easeInOut t =
     (if t < 1/2 then fl (fl (2 * t) * t)
      else fl (1 - fl (fl ((fl (fl (- 2 * t) + 2)) ^ 2) / 2)))"

text \<open>
  A finite number used as a divisor: its value, or the negative zero (\<open>Dur 0\<close> is the
  positive zero).
\<close>

datatype dur = Dur real | NegZero

datatype jsnum = Fin real | PosInf | NegInf | NaN

text \<open>
  The quotient \<^verbatim>\<open>x / d\<close> of a finite \<open>x\<close> (a clock difference, never the negative
  zero) by a finite \<open>d\<close>.
\<close>

fun js_div :: "real \<Rightarrow> dur \<Rightarrow> jsnum" where
  "js_div x (Dur d) =
     (if d \<noteq> 0 then Fin (fl (x / d))
      else if 0 < x then PosInf
      else if x < 0 then NegInf
      else NaN)"
| "js_div x NegZero =
     (if 0 < x then NegInf
      else if x < 0 then PosInf
      else NaN)"

fun nonzero :: "dur \<Rightarrow> bool" where
  "nonzero (Dur d) = (d \<noteq> 0)"
| "nonzero NegZero = False"

text \<open>
  \<^verbatim>\<open>clamp01\<close> applied to such a quotient: \<^verbatim>\<open>Math.max(0, Math.min(1, v))\<close> sends
  \<open>+Infinity\<close> to 1 and \<open>-Infinity\<close> to 0 and propagates \<open>NaN\<close> (the value \<open>None\<close>).
\<close>

fun clamp01_js :: "jsnum \<Rightarrow> real option" where
  "clamp01_js (Fin v) = Some (clamp01 v)"
| "clamp01_js PosInf = Some 1"
| "clamp01_js NegInf = Some 0"
| "clamp01_js NaN = None"

section \<open>AudioManager\<close>

datatype channel = Ambient | Final

record fade =
  f_from :: real
  f_to :: real
  f_start :: real
  f_dur :: dur
  f_active :: bool

text \<open>
  The fields of the class, with the two audio elements reduced to what the manager reads
  and writes of them: their \<^verbatim>\<open>volume\<close> and whether they are \<^verbatim>\<open>paused\<close>.
  \<open>fadeRaf\<close> is true when \<^verbatim>\<open>_fadeRaf\<close> holds a (non-zero) animation-frame handle.
\<close>

record AudioManager =
  enabled :: bool
  muted :: bool
  masterVolume :: real
  base :: "channel \<Rightarrow> real"
  targetAmbient :: real
  targetFinal :: real
  fades :: "channel \<Rightarrow> fade"
  fadeRaf :: bool
  volume :: "channel \<Rightarrow> real"
  paused :: "channel \<Rightarrow> bool"

datatype error = NonFiniteVolume

text \<open>The constructor; \<open>p\<close> tells which of the two elements is paused at that moment.\<close>

definition AudioManager_new :: "(channel \<Rightarrow> bool) \<Rightarrow> AudioManager" where
  "AudioManager_new p =
     \<lparr> enabled = False, muted = False, masterVolume = 1, base = (\<lambda>_. 0),
       targetAmbient = fl 0.14, targetFinal = fl 0.18,
       fades = (\<lambda>_. \<lparr> f_from = 0, f_to = 0, f_start = 0, f_dur = Dur 0, f_active = False \<rparr>),
       fadeRaf = False, volume = (\<lambda>_. 0), paused = p \<rparr>"

definition setMuted :: "bool \<Rightarrow> AudioManager \<Rightarrow> AudioManager" where
  "setMuted m s =
     (let s1 = s\<lparr> muted := m \<rparr> in
      if m then
        s1\<lparr> fades := (\<lambda>c. (fades s1 c)\<lparr> f_active := False \<rparr>),
            fadeRaf := False,
            volume := (\<lambda>_. 0),
            paused := (\<lambda>_. True) \<rparr>
      else s1)"

definition setMasterVolume :: "real \<Rightarrow> AudioManager \<Rightarrow> AudioManager" where
  "setMasterVolume v s =
     (let s1 = s\<lparr> masterVolume := clamp01 v \<rparr> in
      if \<not> enabled s1 then s1
      else if muted s1 then s1
      else s1\<lparr> volume := (\<lambda>c. clamp01 (fl (base s1 c * masterVolume s1))) \<rparr>)"

definition getBase :: "channel \<Rightarrow> AudioManager \<Rightarrow> real" where
  "getBase which s =
     (if masterVolume s > fl 0.0001 then clamp01 (fl (volume s which / masterVolume s))
      else base s which)"

definition ensureFadeTicker :: "AudioManager \<Rightarrow> AudioManager" where
  "ensureFadeTicker s = (if fadeRaf s then s else s\<lparr> fadeRaf := True \<rparr>)"

text \<open>\<^verbatim>\<open>_startFade(which, from, to, dur)\<close>; \<open>now\<close> is the value of \<^verbatim>\<open>nowMs()\<close>.\<close>

definition startFade ::
  "channel \<Rightarrow> real \<Rightarrow> real \<Rightarrow> dur \<Rightarrow> real \<Rightarrow> AudioManager \<Rightarrow> AudioManager" where
  "startFade which a b d now s =
     ensureFadeTicker
       (s\<lparr> fades := (fades s)(which :=
              \<lparr> f_from = a, f_to = b, f_start = now, f_dur = d, f_active = True \<rparr>) \<rparr>)"

text \<open>
  The closure \<^verbatim>\<open>upd\<close> of \<^verbatim>\<open>update()\<close>. When the progress is \<open>NaN\<close> so is the level, and
  the assignment of a non-finite number to an element's \<^verbatim>\<open>volume\<close> throws: the call ends
  there with an error.
\<close>

definition upd :: "real \<Rightarrow> channel \<Rightarrow> AudioManager \<Rightarrow> error + AudioManager" where
  "upd tNow which s =
     (let f = fades s which in
      if \<not> f_active f then Inr s
      else
        (case clamp01_js (js_div (fl (tNow - f_start f)) (f_dur f)) of
           None \<Rightarrow> Inl NonFiniteVolume
         | Some t \<Rightarrow>
             (let b = lerp (f_from f) (f_to f) (easeInOut t);
                  s1 = s\<lparr> base := (base s)(which := b),
                          volume := (volume s)(which := clamp01 (fl (b * masterVolume s))) \<rparr>
              in if t \<ge> 1 then
                   Inr (s1\<lparr> fades := (fades s1)(which := f\<lparr> f_active := False \<rparr>),
                            paused := (if f_to f \<le> fl 0.0001
                                       then (paused s1)(which := True) else paused s1) \<rparr>)
                 else Inr s1)))"

definition update :: "real \<Rightarrow> AudioManager \<Rightarrow> error + AudioManager" where
  "update tNow s =
     (if \<not> enabled s then Inr s
      else if muted s then Inr s
      else (case upd tNow Ambient s of
              Inl e \<Rightarrow> Inl e
            | Inr s1 \<Rightarrow> upd tNow Final s1))"

text \<open>
  \<^verbatim>\<open>ensurePlayback()\<close>; \<open>ok c\<close> tells whether the host lets \<^verbatim>\<open>play()\<close> of channel \<open>c\<close>
  succeed (a rejection is swallowed and leaves the element paused).
\<close>

definition ensurePlayback :: "(channel \<Rightarrow> bool) \<Rightarrow> AudioManager \<Rightarrow> AudioManager" where
  "ensurePlayback ok s =
     (if \<not> enabled s then s
      else if muted s then s
      else if masterVolume s \<le> fl 0.0001 then s
      else
        (let need = (\<lambda>c. fl (base s c * masterVolume s) > fl 0.0005
                          \<or> (f_active (fades s c) \<and> f_to (fades s c) > fl 0.0005));
             s1 = (if need Ambient \<and> paused s Ambient
                   then s\<lparr> paused := (paused s)(Ambient := \<not> ok Ambient) \<rparr> else s);
             s2 = (if need Final \<and> paused s1 Final
                   then s1\<lparr> paused := (paused s1)(Final := \<not> ok Final) \<rparr> else s1)
         in s2))"

text \<open>What the frame loop and the watchdog do to the manager, one call after the other.\<close>

datatype tick = Update real | EnsurePlayback "channel \<Rightarrow> bool"

fun run_tick :: "tick \<Rightarrow> AudioManager \<Rightarrow> error + AudioManager" where
  "run_tick (Update t) s = update t s"
| "run_tick (EnsurePlayback ok) s = Inr (ensurePlayback ok s)"

fun run_ticks :: "tick list \<Rightarrow> AudioManager \<Rightarrow> error + AudioManager" where
  "run_ticks [] s = Inr s"
| "run_ticks (k # ks) s =
     (case run_tick k s of Inl e \<Rightarrow> Inl e | Inr s1 \<Rightarrow> run_ticks ks s1)"

fun updates :: "real list \<Rightarrow> AudioManager \<Rightarrow> error + AudioManager" where
  "updates [] s = Inr s"
| "updates (t # ts) s =
     (case update t s of Inl e \<Rightarrow> Inl e | Inr s1 \<Rightarrow> updates ts s1)"

text \<open>Every fade that is running has a duration other than the two zeros.\<close>

definition fades_ok :: "AudioManager \<Rightarrow> bool" where
  "fades_ok s = (\<forall>c. f_active (fades s c) \<longrightarrow> nonzero (f_dur (fades s c)))"

text \<open>A manager after a successful unlock: enabled, not muted, no fade running.\<close>

definition audio_on :: AudioManager where
  "audio_on = (AudioManager_new (\<lambda>_. True))\<lparr> enabled := True \<rparr>"



section \<open>MiniGameManager\<close>

datatype game_kind = CatchMiniGame | HoldMiniGame | SequenceMiniGame

text \<open>A mini-game object: its kind and a number telling the objects apart.\<close>

record game =
  g_id :: nat
  g_kind :: game_kind

text \<open>
  The fields \<^verbatim>\<open>_active\<close>, \<^verbatim>\<open>_resolve\<close>, \<^verbatim>\<open>_openedAt\<close> and the hidden state of the screen.
  A promise is named by a number; \<open>resolve\<close> holds the number of the promise whose
  resolve function the manager keeps. The rest records what the manager did to the
  outside: how many promises it has created, the calls it made to resolve functions
  (oldest first), and the \<^verbatim>\<open>mount\<close> and \<^verbatim>\<open>unmount\<close> calls it made on games.
\<close>

record MiniGameManager =
  active :: "game option"
  resolve :: "nat option"
  openedAt :: real
  screenHidden :: bool
  promises :: nat
  resolved :: "(nat \<times> bool) list"
  mounts :: "game list"
  unmounts :: "game list"

definition MiniGameManager_new :: MiniGameManager where
  "MiniGameManager_new =
     \<lparr> active = None, resolve = None, openedAt = 0, screenHidden = True,
       promises = 0, resolved = [], mounts = [], unmounts = [] \<rparr>"

definition isOpen :: "MiniGameManager \<Rightarrow> bool" where
  "isOpen s = (active s \<noteq> None)"

definition close :: "MiniGameManager \<Rightarrow> MiniGameManager" where
  "close s =
     (let s1 = (case active s of
                  Some g \<Rightarrow> s\<lparr> unmounts := unmounts s @ [g] \<rparr>
                | None \<Rightarrow> s)
      in s1\<lparr> active := None, openedAt := 0, screenHidden := True \<rparr>)"

text \<open>\<^verbatim>\<open>open(game)\<close> at time \<open>now\<close>: the number of the promise returned, and the new state.\<close>

definition "open" :: "real \<Rightarrow> game \<Rightarrow> MiniGameManager \<Rightarrow> nat \<times> MiniGameManager" where
  "open now g s =
     (let s1 = close s;
          s2 = s1\<lparr> active := Some g, openedAt := now, screenHidden := False,
                  mounts := mounts s1 @ [g] \<rparr>;
          p = promises s2
      in (p, s2\<lparr> resolve := Some p, promises := p + 1 \<rparr>))"

definition finish :: "bool \<Rightarrow> MiniGameManager \<Rightarrow> MiniGameManager" where
  "finish ok s =
     (case resolve s of
        Some r \<Rightarrow>
          (let s1 = close (s\<lparr> resolve := None \<rparr>)
           in s1\<lparr> resolved := resolved s1 @ [(r, ok)] \<rparr>)
      | None \<Rightarrow> close s)"

text \<open>The handler \<^verbatim>\<open>cancel\<close> of the close button and of the backdrop, clicked at \<open>now\<close>.\<close>

definition cancel :: "real \<Rightarrow> MiniGameManager \<Rightarrow> MiniGameManager" where
  "cancel now s =
     (if openedAt s \<noteq> 0 \<and> now - openedAt s < 280 then s else finish False s)"

text \<open>
  The signals a mini-game that has been opened can send: its \<^verbatim>\<open>onComplete\<close> callback,
  its \<^verbatim>\<open>onCancel\<close> callback, and a click on the close button or the backdrop.
\<close>

datatype signal = OnComplete | OnCancel | Dismiss real

fun send :: "signal \<Rightarrow> MiniGameManager \<Rightarrow> MiniGameManager" where
  "send OnComplete s = finish True s"
| "send OnCancel s = finish False s"
| "send (Dismiss now) s = cancel now s"

fun send_all :: "signal list \<Rightarrow> MiniGameManager \<Rightarrow> MiniGameManager" where
  "send_all [] s = s"
| "send_all (x # xs) s = send_all xs (send x s)"

text \<open>Signals, and further calls of \<^verbatim>\<open>open\<close>.\<close>

datatype event = Signal signal | Open real game

fun step :: "event \<Rightarrow> MiniGameManager \<Rightarrow> MiniGameManager" where
  "step (Signal x) s = send x s"
| "step (Open now g) s = snd (open now g s)"

fun run :: "event list \<Rightarrow> MiniGameManager \<Rightarrow> MiniGameManager" where
  "run [] s = s"
| "run (e # es) s = run es (step e s)"

text \<open>
  A signal takes effect on a game opened at \<open>t0\<close> unless it is a click that the guard of
  \<^verbatim>\<open>cancel\<close> drops.
\<close>

fun effective :: "real \<Rightarrow> signal \<Rightarrow> bool" where
  "effective t0 (Dismiss now) = (\<not> (t0 \<noteq> 0 \<and> now - t0 < 280))"
| "effective t0 _ = True"

text \<open>The values with which promise \<open>p\<close> was resolved, among the calls \<open>calls\<close>.\<close>

definition outcomes :: "nat \<Rightarrow> (nat \<times> bool) list \<Rightarrow> bool list" where
  "outcomes p calls = map snd (filter (\<lambda>x. fst x = p) calls)"

text \<open>The resolve calls made between an earlier state \<open>s\<close> and a later state \<open>s'\<close>.\<close>

definition resolved_since :: "MiniGameManager \<Rightarrow> MiniGameManager \<Rightarrow> (nat \<times> bool) list" where
  "resolved_since s s' = drop (length (resolved s)) (resolved s')"

definition game1 :: game where
  "game1 = \<lparr> g_id = 1, g_kind = CatchMiniGame \<rparr>"

definition game2 :: game where
  "game2 = \<lparr> g_id = 2, g_kind = HoldMiniGame \<rparr>"

text \<open>
  What holds of every state after the second \<^verbatim>\<open>open\<close>: the manager does not hold the
  resolve function of promise \<open>p\<close>, every promise it will create has a larger number, and
  the resolve calls made since the state \<open>s0\<close> are not calls for \<open>p\<close>.
\<close>

definition dropped :: "nat \<Rightarrow> MiniGameManager \<Rightarrow> MiniGameManager \<Rightarrow> bool" where
  "dropped p s0 s =
     (resolve s \<noteq> Some p \<and> p < promises s
      \<and> (\<exists>new. resolved s = resolved s0 @ new \<and> p \<notin> fst ` set new))"

section \<open>Content\<close>

text \<open>
  Strings are lists of the UTF-16 code units of the source's literals; every character
  of these texts has a code below 256, so that each is one \<^typ>\<open>char\<close>.
\<close>

definition getInteractionPhrases :: "string list" where
  "getInteractionPhrases =
     [''Hay momentos simples que contigo se vuelven mis favoritos.'',
      ''A veces pienso que nos encontramos justo cuando m'' @ [CHR 0xE1] @ ''s lo necesit'' @ [CHR 0xE1] @ ''bamos.'',
      ''Me gusta la forma en que el tiempo se desordena cuando estamos juntos.'',
      ''A veces tu recuerdo es todo lo que necesito para sentirme bien.'',
      ''Me gusta c'' @ [CHR 0xF3] @ ''mo el tiempo se desordena cuando estamos juntos.'',
      ''Algunas cosas s'' @ [CHR 0xF3] @ ''lo tienen sentido contigo, incluso en silencio.'',
      ''Es curioso c'' @ [CHR 0xF3] @ ''mo un simple pensamiento tuyo puede acompa'' @ [CHR 0xF1] @ ''arme todo el d'' @ [CHR 0xED] @ ''a.'',
      ''No todo tiene que ser especial para ser importante.'',
      ''No importa qu'' @ [CHR 0xE9] @ '' estemos haciendo, contigo siempre se siente mejor.'',
      ''Si algo quiero repetir muchas veces, es esto que tenemos sin forzarlo.'']"

definition getFinalMessageParagraphs :: "string list" where
  "getFinalMessageParagraphs =
     [''Siempre hay algo que se siente diferente, incluso en los d'' @ [CHR 0xED] @ ''as m'' @ [CHR 0xE1] @ ''s comunes.'',
      ''Hay noches que no quiero que se terminen solo porque est'' @ [CHR 0xE1] @ ''s ah'' @ [CHR 0xED] @ ''.'',
      ''No todo necesita explicaci'' @ [CHR 0xF3] @ ''n; algunas sensaciones se entienden sin palabras.'',
      ''Hay algo tuyo que me da fuerza cuando siento que no puedo m'' @ [CHR 0xE1] @ ''s.'',
      ''Gracias por estar en lugares donde no caben las palabras, solo el silencio y la presencia.'',
      ''Al final, lo m'' @ [CHR 0xE1] @ ''s importante es sentir que ciertos momentos valen la pena, y t'' @ [CHR 0xFA] @ '' eres uno de ellos.'']"

text \<open>The identifiers of \<^verbatim>\<open>getMemories()\<close>, in its order.\<close>

definition getMemories :: "string list" where
  "getMemories = [''flower'', ''star'', ''letter'', ''light'', ''butterfly'', ''moon'', ''ribbon'', ''spark'', ''seal'']"

section \<open>StorageManager\<close>

text \<open>
  \<^verbatim>\<open>localStorage\<close> is a list of key/value pairs with distinct keys, in the order in
  which \<^verbatim>\<open>key(i)\<close> enumerates them. Its operations are taken to succeed.
\<close>

type_synonym storage = "(string \<times> string) list"

definition getItem :: "storage \<Rightarrow> string \<Rightarrow> string option" where
  "getItem ls k = map_of ls k"

definition setItem :: "string \<Rightarrow> string \<Rightarrow> storage \<Rightarrow> storage" where
  "setItem k v ls = AList.update k v ls"

definition removeItem :: "string \<Rightarrow> storage \<Rightarrow> storage" where
  "removeItem k ls = AList.delete k ls"

definition key :: "storage \<Rightarrow> nat \<Rightarrow> string option" where
  "key ls i = (if i < length ls then Some (fst (ls ! i)) else None)"

text \<open>Truthiness of a string that may be \<^verbatim>\<open>null\<close> or \<^verbatim>\<open>undefined\<close>.\<close>

fun truthy :: "string option \<Rightarrow> bool" where
  "truthy None = False"
| "truthy (Some v) = (v \<noteq> [])"

datatype json =
  JNull | JBool bool | JNum real | JStr string | JArr "json list" | JObj "(string \<times> json) list"

text \<open>Truthiness of a value that may be \<^verbatim>\<open>undefined\<close>.\<close>

fun truthy_json :: "json option \<Rightarrow> bool" where
  "truthy_json None = False"
| "truthy_json (Some JNull) = False"
| "truthy_json (Some (JBool b)) = b"
| "truthy_json (Some (JNum v)) = (v \<noteq> 0)"
| "truthy_json (Some (JStr v)) = (v \<noteq> [])"
| "truthy_json (Some (JArr _)) = True"
| "truthy_json (Some (JObj _)) = True"

text \<open>
  Reading one of the record's properties off a parsed value other than \<^verbatim>\<open>null\<close>:
  only an object can have them.
\<close>

fun property :: "json \<Rightarrow> string \<Rightarrow> json option" where
  "property (JObj kvs) k = map_of kvs k"
| "property _ k = None"

record ProgressRecord =
  discoveredIds :: "json list"
  r_muted :: bool
  r_volume :: real
  r_assignedPhrases :: json
  r_unlockedOrder :: "json list"
  r_seenFinal :: bool

definition default_record :: ProgressRecord where
  "default_record =
     \<lparr> discoveredIds = [], r_muted = False, r_volume = 1, r_assignedPhrases = JObj [],
       r_unlockedOrder = [], r_seenFinal = False \<rparr>"

text \<open>The object literal that \<^verbatim>\<open>load()\<close> returns for a parsed value with properties.\<close>

definition shape :: "json \<Rightarrow> ProgressRecord" where
  "shape parsed =
     \<lparr> discoveredIds = (case property parsed ''discoveredIds'' of Some (JArr xs) \<Rightarrow> xs | _ \<Rightarrow> []),
       r_muted = truthy_json (property parsed ''muted''),
       r_volume = (case property parsed ''volume'' of Some (JNum v) \<Rightarrow> clamp01 v | _ \<Rightarrow> 1),
       r_assignedPhrases = (case property parsed ''assignedPhrases'' of
                              Some (JObj kvs) \<Rightarrow> JObj kvs
                            | Some (JArr xs) \<Rightarrow> JArr xs
                            | _ \<Rightarrow> JObj []),
       r_unlockedOrder = (case property parsed ''unlockedOrder'' of Some (JArr xs) \<Rightarrow> xs | _ \<Rightarrow> []),
       r_seenFinal = truthy_json (property parsed ''seenFinal'') \<rparr>"

text \<open>
  What \<^verbatim>\<open>load()\<close> returns for the outcome of \<^verbatim>\<open>JSON.parse(raw)\<close>: the \<^verbatim>\<open>catch\<close>
  turns a failed parse (\<open>None\<close>), and the property read off \<^verbatim>\<open>null\<close>, into the default
  record.
\<close>

fun decode :: "json option \<Rightarrow> ProgressRecord" where
  "decode None = default_record"
| "decode (Some JNull) = default_record"
| "decode (Some parsed) = shape parsed"

text \<open>
  \<^verbatim>\<open>load()\<close>, with \<^verbatim>\<open>JSON.parse\<close> as the parameter \<open>parse\<close> (\<open>None\<close> when it throws).
  The result is the record and the storage as the call leaves it.
\<close>

definition load ::
  "(string \<Rightarrow> json option) \<Rightarrow> string \<Rightarrow> storage \<Rightarrow> ProgressRecord \<times> storage" where
  "load parse storageKey ls =
     (let resetOnceKey = storageKey @ ''__reset_once_2026_01'';
          ls2 = (if \<not> truthy (getItem ls resetOnceKey) then
                   (let ls1 = setItem resetOnceKey ''1'' ls;
                        keysToRemove = concat (map (\<lambda>i.
                            (case key ls1 i of
                               None \<Rightarrow> []
                             | Some k \<Rightarrow> if k = [] then []
                                        else if k = resetOnceKey then []
                                        else [k])) [0..<length ls1])
                    in fold removeItem keysToRemove ls1)
                 else ls);
          raw = getItem ls2 storageKey
      in if \<not> truthy raw then (default_record, ls2)
         else (decode (parse (the raw)), ls2))"

record SaveState =
  s_discoveredIds :: "string list"
  s_muted :: bool
  s_volume :: real
  s_assignedPhrases :: "(string \<times> string) list"
  s_unlockedOrder :: "string list"
  s_seenFinal :: bool

text \<open>\<^verbatim>\<open>save(state)\<close>, with \<^verbatim>\<open>JSON.stringify\<close> as the parameter \<open>stringify\<close>.\<close>

definition save :: "(SaveState \<Rightarrow> string) \<Rightarrow> string \<Rightarrow> SaveState \<Rightarrow> storage \<Rightarrow> storage" where
  "save stringify storageKey st ls = setItem storageKey (stringify st) ls"

text \<open>The storage that \<^verbatim>\<open>load()\<close> leaves behind.\<close>

definition wiped :: "string \<Rightarrow> storage \<Rightarrow> storage" where
  "wiped marker ls =
     (let ls1 = setItem marker ''1'' ls
      in fold removeItem (filter (\<lambda>k. k \<noteq> [] \<and> k \<noteq> marker) (map fst ls1)) ls1)"

section \<open>Phrase assignment\<close>

text \<open>
  \<^verbatim>\<open>assignedPhrases\<close> is a \<^verbatim>\<open>Map\<close>: a list of pairs in insertion order, where setting
  a key that is present replaces its value in place.
\<close>

type_synonym phrases = "(string \<times> string) list"

text \<open>\<^verbatim>\<open>Math.floor(r * n)\<close> for the value \<open>r\<close> of \<^verbatim>\<open>Math.random()\<close>, which lies in [0, 1).\<close>

definition random_index :: "real \<Rightarrow> nat \<Rightarrow> nat" where
  "random_index r n = nat \<lfloor>r * real n\<rfloor>"

definition getOrAssignPhrase :: "real \<Rightarrow> string \<Rightarrow> phrases \<Rightarrow> string \<times> phrases" where
  "getOrAssignPhrase r objectId m =
     (let existing = map_of m objectId in
      if truthy existing then (the existing, m)
      else
        (let pool = getInteractionPhrases;
             used = set (map snd m);
             available = filter (\<lambda>p. p \<notin> used) pool;
             pickFrom = (if length available > 0 then available else pool);
             chosen = pickFrom ! random_index r (length pickFrom)
         in (chosen, AList.update objectId chosen m)))"

text \<open>Later calls, each with its object and the random number it would draw.\<close>

fun assign_all :: "(real \<times> string) list \<Rightarrow> phrases \<Rightarrow> phrases" where
  "assign_all [] m = m"
| "assign_all ((r, objectId) # cs) m = assign_all cs (snd (getOrAssignPhrase r objectId m))"

definition phrases1 :: phrases where
  "phrases1 = [(''star'', ''No todo tiene que ser especial para ser importante.'')]"

section \<open>GameState, objects, messages, diary\<close>

datatype SceneName = SceneIntro | SceneWorld | SceneFinal

text \<open>\<open>discovered\<close> is a \<^verbatim>\<open>Set\<close>: its elements in insertion order, none twice.\<close>

record GameState =
  totalMemories :: nat
  discovered :: "string list"
  scene :: SceneName
  audioMuted :: bool
  audioUnlocked :: bool

definition GameState_new :: "nat \<Rightarrow> GameState" where
  "GameState_new n =
     \<lparr> totalMemories = n, discovered = [], scene = SceneIntro,
       audioMuted = False, audioUnlocked = False \<rparr>"

definition Set_add :: "'a \<Rightarrow> 'a list \<Rightarrow> 'a list" where
  "Set_add x xs = (if x \<in> set xs then xs else xs @ [x])"

definition discoveredCount :: "GameState \<Rightarrow> nat" where
  "discoveredCount g = length (discovered g)"

definition isComplete :: "GameState \<Rightarrow> bool" where
  "isComplete g = (length (discovered g) \<ge> totalMemories g)"

record InteractiveObject =
  obj_id :: string
  obj_discovered :: bool
  clickAnim :: "bool \<times> real"

definition InteractiveObject_new :: "string \<Rightarrow> InteractiveObject" where
  "InteractiveObject_new i = \<lparr> obj_id = i, obj_discovered = False, clickAnim = (False, 0) \<rparr>"

definition setDiscovered :: "bool \<Rightarrow> InteractiveObject \<Rightarrow> InteractiveObject" where
  "setDiscovered v obj = obj\<lparr> obj_discovered := v \<rparr>"

definition playInteractAnim :: "real \<Rightarrow> InteractiveObject \<Rightarrow> InteractiveObject" where
  "playInteractAnim now obj = obj\<lparr> clickAnim := (True, now) \<rparr>"

datatype msg_phase = PhaseIdle | PhaseIn | PhaseHold | PhaseOut

record MessageSystem =
  phase :: msg_phase
  msg_t0 :: real
  durHold :: real
  current :: string

definition MessageSystem_new :: MessageSystem where
  "MessageSystem_new = \<lparr> phase = PhaseIdle, msg_t0 = 0, durHold = 2400, current = [] \<rparr>"

text \<open>\<^verbatim>\<open>show(text, { holdMs })\<close> at time \<open>now\<close>.\<close>

definition "show" :: "string \<Rightarrow> real \<Rightarrow> real \<Rightarrow> MessageSystem \<Rightarrow> MessageSystem" where
  "show txt holdMs now ms =
     ms\<lparr> current := txt, durHold := holdMs, phase := PhaseIn, msg_t0 := now \<rparr>"

record DiarySystem =
  d_phrases :: "string list"
  d_index :: nat
  d_open :: bool

definition DiarySystem_new :: DiarySystem where
  "DiarySystem_new = \<lparr> d_phrases = [], d_index = 0, d_open = False \<rparr>"

definition setPhrases :: "string list \<Rightarrow> DiarySystem \<Rightarrow> DiarySystem" where
  "setPhrases ps d =
     (let d1 = d\<lparr> d_phrases := ps \<rparr>
      in if d_index d1 \<ge> length ps then d1\<lparr> d_index := max 0 (length ps - 1) \<rparr> else d1)"

section \<open>Finale timeline\<close>

text \<open>
  \<open>nodes\<close> holds, for each paragraph element, whether it carries the class \<^verbatim>\<open>on\<close>.
\<close>

record FinalTimeline =
  tl_start :: real
  revealed :: nat
  baseDelay :: real
  stepDelay :: real
  nodes :: "bool list"

text \<open>
  \<^verbatim>\<open>_setupFinalText()\<close> followed by \<^verbatim>\<open>_startFinalTimeline()\<close> at time \<open>now\<close>: one fresh
  paragraph element, without the class, for each paragraph of the final message.
\<close>

definition startFinalTimeline :: "bool \<Rightarrow> real \<Rightarrow> FinalTimeline" where
  "startFinalTimeline reduced now =
     \<lparr> tl_start = now, revealed = 0,
       baseDelay = (if reduced then 500 else 900),
       stepDelay = (if reduced then 900 else 2100),
       nodes = map (\<lambda>_. False) getFinalMessageParagraphs \<rparr>"

definition updateFinalTimeline :: "real \<Rightarrow> FinalTimeline \<Rightarrow> FinalTimeline" where
  "updateFinalTimeline t tln =
     (let elapsed = t - tl_start tln;
          nextIndex = revealed tln
      in if nextIndex \<ge> length (nodes tln) then tln
         else
           (let due = baseDelay tln + real nextIndex * stepDelay tln
            in if elapsed \<ge> due
               then tln\<lparr> nodes := (nodes tln)[nextIndex := True], revealed := revealed tln + 1 \<rparr>
               else tln))"

text \<open>The ticks of the frame loop that reach the timeline, at the given times.\<close>

fun timeline_ticks :: "real list \<Rightarrow> FinalTimeline \<Rightarrow> FinalTimeline" where
  "timeline_ticks [] tln = tln"
| "timeline_ticks (t # ts) tln = timeline_ticks ts (updateFinalTimeline t tln)"

section \<open>App\<close>

text \<open>
  What the page and the browser contribute: \<^verbatim>\<open>JSON.parse\<close> (\<open>None\<close> when it throws),
  \<^verbatim>\<open>JSON.stringify\<close>, \<^verbatim>\<open>String\<close>, \<^verbatim>\<open>Object.entries\<close>, whether the page has an element
  for an object, the value of \<^verbatim>\<open>Math.random()\<close> in the call that assigns the phrase of
  an object, whether the completion screen starts hidden, which audio elements start
  paused, and the reduced-motion preference.
\<close>

record host =
  JSON_parse :: "string \<Rightarrow> json option"
  JSON_stringify :: "SaveState \<Rightarrow> string"
  String_of :: "json \<Rightarrow> string"
  Object_entries :: "json \<Rightarrow> (string \<times> json) list"
  has_element :: "string \<Rightarrow> bool"
  random_for :: "string \<Rightarrow> real"
  completeHidden0 :: bool
  paused0 :: "channel \<Rightarrow> bool"
  reducedMotion :: bool

text \<open>
  The fields of \<^verbatim>\<open>App\<close> that its logic reads and writes. \<open>completeHidden\<close> is the class
  \<^verbatim>\<open>hidden\<close> of the completion screen, \<open>visible\<close> the scene that \<^verbatim>\<open>SceneManager.show\<close>
  made visible last, \<open>darkness\<close> the class set by \<^verbatim>\<open>setDarkness\<close>; \<open>localStorage\<close> is the
  browser's storage.
\<close>

record App =
  state :: GameState
  assignedPhrases :: phrases
  unlockedOrder :: "string list"
  seenFinal :: bool
  audio :: AudioManager
  diary :: DiarySystem
  miniGames :: MiniGameManager
  objects :: "InteractiveObject list"
  completeHidden :: bool
  messages :: MessageSystem
  finalTimeline :: "FinalTimeline option"
  visible :: "SceneName option"
  darkness :: bool
  localStorage :: storage

definition storageKey0 :: string where
  "storageKey0 = ''beautiful_emotional_game_v1''"

definition initObjects :: "host \<Rightarrow> App \<Rightarrow> App" where
  "initObjects h s =
     s\<lparr> objects := objects s @
          map InteractiveObject_new (filter (has_element h) getMemories) \<rparr>"

definition updateDiaryUi :: "App \<Rightarrow> App" where
  "updateDiaryUi s =
     s\<lparr> diary := setPhrases
          (concat (map (\<lambda>i. case map_of (assignedPhrases s) i of
                               None \<Rightarrow> []
                             | Some p \<Rightarrow> if p = [] then [] else [p])
                       (unlockedOrder s)))
          (diary s) \<rparr>"

definition persist :: "host \<Rightarrow> App \<Rightarrow> App" where
  "persist h s =
     s\<lparr> localStorage := save (JSON_stringify h) storageKey0
          \<lparr> s_discoveredIds = discovered (state s),
            s_muted = audioMuted (state s),
            s_volume = masterVolume (audio s),
            s_assignedPhrases = assignedPhrases s,
            s_unlockedOrder = unlockedOrder s,
            s_seenFinal = seenFinal s \<rparr>
          (localStorage s) \<rparr>"

text \<open>
  \<^verbatim>\<open>_restore()\<close>, statement by statement: each value it computes, then the fields it has
  written when it returns. It writes no other field; the scene is not among them.
\<close>

definition restore :: "host \<Rightarrow> App \<Rightarrow> App" where
  "restore h s =
     (let (saved, ls) = load (JSON_parse h) storageKey0 (localStorage s);
          audioMuted1 = r_muted saved;
          audio1 = setMasterVolume (r_volume saved) (setMuted audioMuted1 (audio s));
          assigned1 = fold (\<lambda>(i, phrase) m. case phrase of JStr p \<Rightarrow> AList.update i p m | _ \<Rightarrow> m)
                           (Object_entries h (r_assignedPhrases saved)) (assignedPhrases s);
          unlockedOrder1 = map (String_of h) (r_unlockedOrder saved);
          seenFinal1 = r_seenFinal saved;
          discovered1 = fold (\<lambda>i d. Set_add (String_of h i) d) (discoveredIds saved)
                             (discovered (state s));
          assigned2 = fold (\<lambda>i m. snd (getOrAssignPhrase (random_for h i) i m))
                           discovered1 assigned1;
          objects1 = map (\<lambda>obj. setDiscovered (obj_id obj \<in> set discovered1) obj) (objects s);
          unlockedOrder2 =
            (if length unlockedOrder1 = 0 \<and> length discovered1 > 0
             then unlockedOrder1 @
                    map obj_id (filter (\<lambda>obj. obj_id obj \<in> set discovered1) objects1)
             else unlockedOrder1)
      in s\<lparr> localStorage := ls,
            state := (state s)\<lparr> audioMuted := audioMuted1, discovered := discovered1 \<rparr>,
            audio := audio1,
            assignedPhrases := assigned2,
            unlockedOrder := unlockedOrder2,
            seenFinal := seenFinal1,
            objects := objects1 \<rparr>)"

text \<open>
  The constructor, run on the storage \<open>ls\<close>. Wiring the handlers and starting the frame
  loop change none of the fields.
\<close>

definition App_new :: "host \<Rightarrow> storage \<Rightarrow> App" where
  "App_new h ls =
     (let s0 = \<lparr> state = GameState_new 9, assignedPhrases = [], unlockedOrder = [],
                 seenFinal = False, audio = AudioManager_new (paused0 h),
                 diary = DiarySystem_new, miniGames = MiniGameManager_new, objects = [],
                 completeHidden = completeHidden0 h, messages = MessageSystem_new,
                 finalTimeline = None, visible = None, darkness = False,
                 localStorage = ls \<rparr>;
          s1 = initObjects h s0;
          s2 = restore h s1;
          s3 = s2\<lparr> state := (state s2)\<lparr> scene := SceneIntro \<rparr> \<rparr>;
          s4 = s3\<lparr> darkness := False \<rparr>;
          s5 = s4\<lparr> visible := Some SceneIntro \<rparr>
      in updateDiaryUi s5)"

text \<open>The mini-game that \<^verbatim>\<open>_runMiniGameFor\<close> creates for an object.\<close>

definition gameFor :: "string \<Rightarrow> game_kind" where
  "gameFor objectId =
     (if objectId = ''butterfly'' \<or> objectId = ''star'' then CatchMiniGame
      else if objectId = ''letter'' \<or> objectId = ''light'' then HoldMiniGame
      else SequenceMiniGame)"

definition acknowledgment :: string where
  "acknowledgment = ''Ya lo tocaste antes. No hace falta repetirlo.''"

text \<open>
  \<^verbatim>\<open>_handleInteract(obj)\<close> for the object with identifier \<open>objectId\<close>, at time \<open>now\<close>, up
  to the point where it awaits the mini-game (the calls of \<^verbatim>\<open>nowMs()\<close> within the
  handler are taken to return the same value). An identifier without an object has no
  handler. The game created is numbered by the mounts made so far.
\<close>

definition handleInteract :: "real \<Rightarrow> string \<Rightarrow> App \<Rightarrow> App" where
  "handleInteract now objectId s =
     (case find (\<lambda>obj. obj_id obj = objectId) (objects s) of
        None \<Rightarrow> s
      | Some obj \<Rightarrow>
          if scene (state s) \<noteq> SceneWorld then s
          else if isComplete (state s) then s
          else if d_open (diary s) \<or> isOpen (miniGames s) then s
          else if \<not> completeHidden s then s
          else
            (let s1 = s\<lparr> objects := map (\<lambda>ob. if obj_id ob = objectId
                                               then playInteractAnim now ob else ob)
                                        (objects s) \<rparr>
             in if \<not> obj_discovered obj then
                  s1\<lparr> miniGames := snd (open now
                         \<lparr> g_id = length (mounts (miniGames s1)), g_kind = gameFor objectId \<rparr>
                         (miniGames s1)) \<rparr>
                else
                  s1\<lparr> messages := show acknowledgment 1500 now (messages s1) \<rparr>))"

text \<open>
  The rest of \<^verbatim>\<open>_handleInteract(obj)\<close>, run when the promise of the mini-game is resolved
  with \<open>ok\<close>; \<open>r\<close> is the value of \<^verbatim>\<open>Math.random()\<close> should a phrase be drawn.
\<close>

definition handleInteract_resume :: "host \<Rightarrow> real \<Rightarrow> real \<Rightarrow> string \<Rightarrow> bool \<Rightarrow> App \<Rightarrow> App" where
  "handleInteract_resume h r now objectId ok s =
     (if \<not> ok then s
      else
        (let s1 = s\<lparr> objects := map (\<lambda>ob. if obj_id ob = objectId
                                           then setDiscovered True ob else ob) (objects s) \<rparr>;
             s2 = s1\<lparr> state := (state s1)\<lparr> discovered := Set_add objectId (discovered (state s1)) \<rparr> \<rparr>;
             (phrase, m) = getOrAssignPhrase r objectId (assignedPhrases s2);
             s3 = s2\<lparr> assignedPhrases := m \<rparr>;
             s4 = (if objectId \<in> set (unlockedOrder s3) then s3
                   else s3\<lparr> unlockedOrder := unlockedOrder s3 @ [objectId] \<rparr>);
             s5 = persist h s4;
             s6 = s5\<lparr> messages := show phrase 2800 now (messages s5) \<rparr>;
             s7 = updateDiaryUi s6
         in if isComplete (state s7) then s7\<lparr> completeHidden := False \<rparr> else s7))"

text \<open>A page and a storage in which all nine objects are discovered and the finale was seen.\<close>

definition host1 :: host where
  "host1 =
     \<lparr> JSON_parse = (\<lambda>_. Some (JObj [(''discoveredIds'', JArr (map JStr getMemories)),
                                       (''seenFinal'', JBool True)])),
       JSON_stringify = (\<lambda>_. ''saved''),
       String_of = (\<lambda>j. case j of JStr v \<Rightarrow> v | _ \<Rightarrow> ''null''),
       Object_entries = (\<lambda>j. case j of JObj kvs \<Rightarrow> kvs | _ \<Rightarrow> []),
       has_element = (\<lambda>_. True),
       random_for = (\<lambda>_. 0),
       completeHidden0 = True,
       paused0 = (\<lambda>_. True),
       reducedMotion = False \<rparr>"

definition storage1 :: storage where
  "storage1 = [(''beautiful_emotional_game_v1__reset_once_2026_01'', ''1''),
               (''beautiful_emotional_game_v1'', ''saved'')]"

text \<open>
  The world scene with all nine objects discovered and the completion prompt dismissed;
  and the world scene with only the star discovered.
\<close>

definition app_done :: App where
  "app_done =
     \<lparr> state = (GameState_new 9)\<lparr> discovered := getMemories, scene := SceneWorld \<rparr>,
       assignedPhrases = zip getMemories getInteractionPhrases,
       unlockedOrder = getMemories, seenFinal = False,
       audio = audio_on, diary = DiarySystem_new, miniGames = MiniGameManager_new,
       objects = map (\<lambda>i. setDiscovered True (InteractiveObject_new i)) getMemories,
       completeHidden = True, messages = MessageSystem_new, finalTimeline = None,
       visible = Some SceneWorld, darkness = False, localStorage = [] \<rparr>"

definition app_one :: App where
  "app_one =
     \<lparr> state = (GameState_new 9)\<lparr> discovered := [''star''], scene := SceneWorld \<rparr>,
       assignedPhrases = phrases1, unlockedOrder = [''star''], seenFinal = False,
       audio = audio_on, diary = DiarySystem_new, miniGames = MiniGameManager_new,
       objects = map (\<lambda>i. setDiscovered (i = ''star'') (InteractiveObject_new i)) getMemories,
       completeHidden = True, messages = MessageSystem_new, finalTimeline = None,
       visible = Some SceneWorld, darkness = False, localStorage = [] \<rparr>"

section \<open>Properties of the AudioManager\<close>

subsection \<open>Rounding\<close>

lemma rhe_of_int [simp]: "rhe (of_int n) = n"
  by (simp add: rhe_def)

lemma rhe_bounds: "of_int (rhe x) \<le> x + 1/2" "x - 1/2 \<le> of_int (rhe x)"
  unfolding rhe_def Let_def by (auto split: if_splits) linarith+

lemma rhe_floor: "\<lfloor>x\<rfloor> \<le> rhe x" "rhe x \<le> \<lfloor>x\<rfloor> + 1"
  by (auto simp: rhe_def Let_def)

lemma rhe_mono: assumes "x \<le> y" shows "rhe x \<le> rhe y"
proof (cases "\<lfloor>x\<rfloor> < \<lfloor>y\<rfloor>")
  case True
  then have "rhe x \<le> \<lfloor>y\<rfloor>" using rhe_floor(2) [of x] by linarith
  then show ?thesis using rhe_floor(1) [of y] by linarith
next
  case False
  then have eq: "\<lfloor>x\<rfloor> = \<lfloor>y\<rfloor>" using assms floor_mono [of x y] by linarith
  show ?thesis using assms unfolding rhe_def Let_def eq by (auto split: if_splits)
qed

lemma rhe_uminus: "rhe (- x) = - rhe x"
proof (cases "x = of_int \<lfloor>x\<rfloor>")
  case True
  then obtain n where "x = of_int n" ..
  then have "- x = of_int (- n)" by simp
  then show ?thesis using \<open>x = of_int n\<close> by (simp only: rhe_of_int)
next
  case False
  then have lt: "of_int \<lfloor>x\<rfloor> < x" using of_int_floor_le [of x] by linarith
  have ub: "x < of_int \<lfloor>x\<rfloor> + 1" by linarith
  have f: "\<lfloor>- x\<rfloor> = - \<lfloor>x\<rfloor> - 1"
  proof (rule floor_unique)
    show "of_int (- \<lfloor>x\<rfloor> - 1) \<le> - x" using ub by (simp; linarith)
    show "- x < of_int (- \<lfloor>x\<rfloor> - 1) + 1" using lt by (simp; linarith)
  qed
  show ?thesis using lt unfolding rhe_def Let_def f by (auto split: if_splits)
qed

lemma rhe_nonneg: "0 \<le> x \<Longrightarrow> 0 \<le> rhe x"
  using rhe_mono [of 0 x] rhe_of_int [of 0] by simp


lemma log2_bounds:
  assumes "x \<noteq> 0"
  shows "2 powr of_int \<lfloor>log 2 \<bar>x\<bar>\<rfloor> \<le> \<bar>x\<bar>"
    and "\<bar>x\<bar> < 2 powr (of_int \<lfloor>log 2 \<bar>x\<bar>\<rfloor> + 1)"
proof -
  have p: "0 < \<bar>x\<bar>" using assms by simp
  have "of_int \<lfloor>log 2 \<bar>x\<bar>\<rfloor> \<le> log 2 \<bar>x\<bar>" by simp
  then show "2 powr of_int \<lfloor>log 2 \<bar>x\<bar>\<rfloor> \<le> \<bar>x\<bar>"
    using p le_log_iff [of 2 "\<bar>x\<bar>" "of_int \<lfloor>log 2 \<bar>x\<bar>\<rfloor>"] by simp
  have "log 2 \<bar>x\<bar> < of_int \<lfloor>log 2 \<bar>x\<bar>\<rfloor> + 1" by linarith
  then show "\<bar>x\<bar> < 2 powr (of_int \<lfloor>log 2 \<bar>x\<bar>\<rfloor> + 1)"
    using p log_less_iff [of 2 "\<bar>x\<bar>" "of_int \<lfloor>log 2 \<bar>x\<bar>\<rfloor> + 1"] by simp
qed

lemma log2_floor_eq:
  assumes "2 powr of_int e \<le> \<bar>x\<bar>" and "\<bar>x\<bar> < 2 powr (of_int e + 1)"
  shows "\<lfloor>log 2 \<bar>x\<bar>\<rfloor> = e"
proof -
  have p: "0 < \<bar>x\<bar>" using assms(1) powr_gt_zero [of 2 "of_int e"] by linarith
  show ?thesis
  proof (rule floor_unique)
    show "of_int e \<le> log 2 \<bar>x\<bar>"
      using assms(1) p le_log_iff [of 2 "\<bar>x\<bar>" "of_int e"] by simp
    show "log 2 \<bar>x\<bar> < of_int e + 1"
      using assms(2) p log_less_iff [of 2 "\<bar>x\<bar>" "of_int e + 1"] by simp
  qed
qed

lemma ulp_exp_uminus [simp]: "ulp_exp (- x) = ulp_exp x"
  by (simp add: ulp_exp_def)

lemma ulp_exp_mono:
  assumes "0 < x" and "x \<le> y"
  shows "ulp_exp x \<le> ulp_exp y"
proof -
  have "log 2 x \<le> log 2 y" using assms by simp
  then have "\<lfloor>log 2 x\<rfloor> \<le> \<lfloor>log 2 y\<rfloor>" by (rule floor_mono)
  then show ?thesis using assms by (simp add: ulp_exp_def)
qed

lemma fl_uminus: "fl (- x) = - fl x"
  by (simp add: fl_def rhe_uminus)

lemma fl_zero [simp]: "fl 0 = 0"
  by (simp add: fl_def)

lemma fl_nonneg: assumes "0 \<le> x" shows "0 \<le> fl x"
proof (cases "x = 0")
  case True then show ?thesis by simp
next
  case False
  have "0 \<le> x / 2 powr of_int (ulp_exp x)" using assms by simp
  then have "0 \<le> rhe (x / 2 powr of_int (ulp_exp x))" by (rule rhe_nonneg)
  then show ?thesis using False by (simp add: fl_def)
qed

text \<open>Below the top of its binade, above the bottom of a normal binade.\<close>

lemma fl_upper:
  assumes "0 < x"
  shows "fl x \<le> 2 powr (of_int (ulp_exp x) + 53)"
proof -
  let ?q = "ulp_exp x" and ?e = "\<lfloor>log 2 \<bar>x\<bar>\<rfloor>"
  let ?p = "(2::real) powr of_int ?q"
  have pp: "0 < ?p" by simp
  have "?e - 52 \<le> ?q" by (simp add: ulp_exp_def)
  then have "of_int ?e + 1 \<le> (of_int ?q + 53 :: real)" by linarith
  then have "(2::real) powr (of_int ?e + 1) \<le> 2 powr (of_int ?q + 53)"
    by (intro powr_mono) simp_all
  moreover have "\<bar>x\<bar> < 2 powr (of_int ?e + 1)"
    using assms by (intro log2_bounds(2)) simp
  ultimately have "x < 2 powr (of_int ?q + 53)" using assms by linarith
  also have "\<dots> = 2 ^ 53 * ?p" by (simp add: powr_add)
  finally have "x / ?p < 2 ^ 53" using pp by (simp add: field_simps)
  then have "x / ?p \<le> of_int (2 ^ 53)" by simp
  then have "rhe (x / ?p) \<le> rhe (of_int (2 ^ 53))" by (rule rhe_mono)
  then have "rhe (x / ?p) \<le> 2 ^ 53" by (simp only: rhe_of_int)
  then have "real_of_int (rhe (x / ?p)) \<le> real_of_int (2 ^ 53)" by (simp only: of_int_le_iff)
  then have "real_of_int (rhe (x / ?p)) * ?p \<le> real_of_int (2 ^ 53) * ?p"
    using pp by (intro mult_right_mono) simp_all
  also have "\<dots> = 2 powr (of_int ?q + 53)" by (simp add: powr_add)
  finally have "real_of_int (rhe (x / ?p)) * ?p \<le> 2 powr (of_int ?q + 53)" .
  moreover have "fl x = real_of_int (rhe (x / ?p)) * ?p" using assms by (simp add: fl_def)
  ultimately show ?thesis by (simp only:)
qed

lemma fl_lower:
  assumes "0 < x" and "- 1074 < ulp_exp x"
  shows "2 powr (of_int (ulp_exp x) + 52) \<le> fl x"
proof -
  let ?q = "ulp_exp x" and ?e = "\<lfloor>log 2 \<bar>x\<bar>\<rfloor>"
  let ?p = "(2::real) powr of_int ?q"
  have pp: "0 < ?p" by simp
  have "?q = ?e - 52" using assms(2) by (simp add: ulp_exp_def split: if_splits)
  then have "of_int ?e = (of_int ?q + 52 :: real)" by simp
  moreover have "2 powr of_int ?e \<le> \<bar>x\<bar>"
    using assms(1) by (intro log2_bounds(1)) simp
  ultimately have "2 powr (of_int ?q + 52) \<le> x" using assms(1) by simp
  moreover have "2 powr (of_int ?q + 52) = 2 ^ 52 * ?p" by (simp add: powr_add)
  ultimately have "2 ^ 52 * ?p \<le> x" by simp
  then have "2 ^ 52 \<le> x / ?p" using pp by (simp add: field_simps)
  then have "of_int (2 ^ 52) \<le> x / ?p" by simp
  then have "rhe (of_int (2 ^ 52)) \<le> rhe (x / ?p)" by (rule rhe_mono)
  then have "2 ^ 52 \<le> rhe (x / ?p)" by (simp only: rhe_of_int)
  then have "real_of_int (2 ^ 52) \<le> real_of_int (rhe (x / ?p))" by (simp only: of_int_le_iff)
  then have m: "real_of_int (2 ^ 52) * ?p \<le> real_of_int (rhe (x / ?p)) * ?p"
    using pp by (intro mult_right_mono) simp_all
  have fx: "fl x = real_of_int (rhe (x / ?p)) * ?p" using assms by (simp add: fl_def)
  have "2 powr (of_int ?q + 52) = real_of_int (2 ^ 52) * ?p" by (simp add: powr_add)
  also note m
  finally show ?thesis by (simp only: fx)
qed

lemma fl_mono_pos:
  assumes "0 < x" and "x \<le> y"
  shows "fl x \<le> fl y"
proof (cases "ulp_exp x = ulp_exp y")
  case True
  have "x / 2 powr of_int (ulp_exp y) \<le> y / 2 powr of_int (ulp_exp y)"
    using assms by (simp add: divide_right_mono)
  then have "rhe (x / 2 powr of_int (ulp_exp y)) \<le> rhe (y / 2 powr of_int (ulp_exp y))"
    by (rule rhe_mono)
  then have "real_of_int (rhe (x / 2 powr of_int (ulp_exp y))) * 2 powr of_int (ulp_exp y)
      \<le> real_of_int (rhe (y / 2 powr of_int (ulp_exp y))) * 2 powr of_int (ulp_exp y)"
    by (simp add: mult_right_mono)
  then show ?thesis using assms True by (simp add: fl_def)
next
  case False
  then have lt: "ulp_exp x < ulp_exp y" using ulp_exp_mono [OF assms] by simp
  have "- 1074 \<le> ulp_exp x" by (simp add: ulp_exp_def)
  then have n: "- 1074 < ulp_exp y" using lt by simp
  have "fl x \<le> 2 powr (of_int (ulp_exp x) + 53)" using assms(1) by (rule fl_upper)
  also have "\<dots> \<le> 2 powr (of_int (ulp_exp y) + 52)"
  proof -
    have "(of_int (ulp_exp x) + 53 :: real) \<le> of_int (ulp_exp y) + 52" using lt by linarith
    then show ?thesis by simp
  qed
  also have "\<dots> \<le> fl y" using assms n by (intro fl_lower) simp_all
  finally show ?thesis .
qed

lemma fl_mono: assumes "x \<le> y" shows "fl x \<le> fl y"
proof -
  consider "0 < x" | "x \<le> 0" "0 \<le> y" | "y < 0" using assms by linarith
  then show ?thesis
  proof cases
    case 1
    then show ?thesis using assms by (rule fl_mono_pos)
  next
    case 2
    have "0 \<le> fl (- x)" using 2(1) by (intro fl_nonneg) simp
    then have "fl x \<le> 0" by (simp add: fl_uminus)
    also have "0 \<le> fl y" using 2(2) by (rule fl_nonneg)
    finally show ?thesis .
  next
    case 3
    have "fl (- y) \<le> fl (- x)" using 3 assms by (intro fl_mono_pos) simp_all
    then show ?thesis by (simp add: fl_uminus)
  qed
qed


text \<open>Evaluating \<open>fl\<close> at a number whose binade is known.\<close>

lemma fl_eval:
  assumes "2 powr of_int e \<le> \<bar>x\<bar>" and "\<bar>x\<bar> < 2 powr (of_int e + 1)"
    and "- 1022 \<le> e" and "e \<le> 52"
  shows "fl x = of_int (rhe (x * 2 ^ nat (52 - e))) / 2 ^ nat (52 - e)"
proof -
  have nz: "x \<noteq> 0" using assms(1) powr_gt_zero [of 2 "of_int e"] by auto
  have "\<lfloor>log 2 \<bar>x\<bar>\<rfloor> = e" using assms(1,2) by (rule log2_floor_eq)
  then have q: "ulp_exp x = e - 52" using assms(3) by (simp add: ulp_exp_def)
  have "(2::real) powr of_int (e - 52) = 2 powr (- of_int (int (nat (52 - e))))"
    using assms(4) by simp
  also have "\<dots> = 1 / 2 ^ nat (52 - e)"
    by (simp only: powr_minus_divide of_int_of_nat_eq) (simp add: powr_realpow)
  finally have p: "(2::real) powr of_int (e - 52) = 1 / 2 ^ nat (52 - e)" .
  have "fl x = of_int (rhe (x / 2 powr of_int (ulp_exp x))) * 2 powr of_int (ulp_exp x)"
    using nz by (simp add: fl_def)
  then show ?thesis unfolding q p by simp
qed

lemma fl_1 [simp]: "fl 1 = 1"
  using fl_eval [of 0 1] by (simp add: rhe_def)

lemma fl_half: "fl (1/2) = 1/2"
  using fl_eval [of "- 1" "1/2"] by (simp add: rhe_def powr_minus)

lemma fl_2 [simp]: "fl 2 = 2"
  using fl_eval [of 1 2] by (simp add: rhe_def)


lemma fl_uminus_1: "fl (- 1) = - 1"
  using fl_uminus [of 1] by simp

lemma fl_uminus_2: "fl (- 2) = - 2"
  using fl_uminus [of 2] by simp

lemma fl_quarter: "fl (1/4) = 1/4"
  using fl_eval [of "- 2" "1/4"] by (simp add: rhe_def powr_minus)

lemma fl_eighth: "fl (1/8) = 1/8"
  using fl_eval [of "- 3" "1/8"] by (simp add: rhe_def powr_minus)

lemma fl_16: "fl 16 = 16"
  using fl_eval [of 4 16] by (simp add: rhe_def)

lemma fl_1000: "fl 1000 = 1000"
  using fl_eval [of 9 1000] by (simp add: rhe_def)

lemma fl_3000: "fl 3000 = 3000"
  using fl_eval [of 11 3000] by (simp add: rhe_def)

text \<open>Every double is a multiple of the smallest one; so two doubles differ by at least that.\<close>

lemma fl_grid: "\<exists>k::int. fl x = of_int k * 2 powr (- 1074)"
proof (cases "x = 0")
  case True
  then have "fl x = of_int 0 * 2 powr (- 1074)" by simp
  then show ?thesis ..
next
  case False
  let ?q = "ulp_exp x"
  have "- 1074 \<le> ?q" by (simp add: ulp_exp_def)
  then have "(2::real) powr of_int ?q = 2 powr (of_int (int (nat (?q + 1074))) + (- 1074))"
    by simp
  also have "\<dots> = 2 ^ nat (?q + 1074) * 2 powr (- 1074)"
    by (simp only: powr_add of_int_of_nat_eq) (simp add: powr_realpow)
  finally have "fl x = of_int (rhe (x / 2 powr of_int ?q) * 2 ^ nat (?q + 1074)) * 2 powr (- 1074)"
    using False by (simp add: fl_def)
  then show ?thesis ..
qed

lemma fl_tiny: "fl (2 powr (- 1074)) = 2 powr (- 1074)"
proof -
  have "ulp_exp (2 powr (- 1074)) = - 1074" by (simp add: ulp_exp_def)
  moreover have "rhe 1 = 1" using rhe_of_int [of 1] by simp
  ultimately show ?thesis by (simp add: fl_def)
qed

lemma fl_diff_pos:
  assumes "fl t = t" and "fl st = st" and "st < t"
  shows "0 < fl (t - st)"
proof -
  let ?u = "(2::real) powr (- 1074)"
  obtain k1 :: int where k1: "t = of_int k1 * ?u" using fl_grid [of t] assms(1) by auto
  obtain k2 :: int where k2: "st = of_int k2 * ?u" using fl_grid [of st] assms(2) by auto
  have u: "0 < ?u" by simp
  have "of_int k2 * ?u < of_int k1 * ?u" using assms(3) k1 k2 by simp
  then have "k2 < k1" using u by (simp add: mult_less_cancel_right)
  then have "1 \<le> k1 - k2" by simp
  then have "(1::real) \<le> of_int (k1 - k2)" by (simp only: of_int_1_le_iff)
  then have "1 * ?u \<le> of_int (k1 - k2) * ?u" using u by (intro mult_right_mono) simp_all
  then have "?u \<le> t - st" by (simp add: k1 k2 algebra_simps)
  then have "fl ?u \<le> fl (t - st)" by (rule fl_mono)
  then have "?u \<le> fl (t - st)" by (simp only: fl_tiny)
  then show ?thesis using u by linarith
qed


lemma clamp01_le0: "v \<le> 0 \<Longrightarrow> clamp01 v = 0"
  by (simp add: clamp01_def)


lemma easeInOut_0: "easeInOut 0 = 0"
  by (simp add: easeInOut_def)

lemma easeInOut_1: "easeInOut 1 = 1"
  by (simp add: easeInOut_def fl_uminus_2)

lemma easeInOut_half: "easeInOut (1/2) = 1/2"
  by (simp add: easeInOut_def fl_uminus_1 fl_half)

lemma lerp_0: "fl a = a \<Longrightarrow> lerp a b 0 = a"
  by (simp add: lerp_def)

text \<open>At the end of a fade from silence, or to silence, the level is the target itself.\<close>

lemma lerp_1_exact:
  assumes "fl a = a" and "fl b = b" and "a = 0 \<or> b = 0"
  shows "lerp a b 1 = b"
proof -
  have "fl (- a) = - a" using assms(1) by (simp add: fl_uminus)
  then show ?thesis using assms by (auto simp: lerp_def)
qed

lemma upd_inactive: "\<not> f_active (fades s c) \<Longrightarrow> upd t c s = Inr s"
  by (simp add: upd_def)

lemma upd_total:
  "f_active (fades s c) \<longrightarrow> nonzero (f_dur (fades s c)) \<Longrightarrow> \<exists>s'. upd t c s = Inr s'"
  by (cases "f_dur (fades s c)") (auto simp: upd_def Let_def)

lemma upd_frame:
  assumes "upd t c s = Inr s'"
  shows "enabled s' = enabled s" "muted s' = muted s" "masterVolume s' = masterVolume s"
    "c' \<noteq> c \<Longrightarrow> fades s' c' = fades s c'"
    "c' \<noteq> c \<Longrightarrow> base s' c' = base s c'"
    "f_dur (fades s' c'') = f_dur (fades s c'')"
    "f_active (fades s' c'') \<Longrightarrow> f_active (fades s c'')"
  using assms
  by (auto simp: upd_def Let_def split: if_splits option.splits)

text \<open>
  One step of a running fade whose progress is \<open>p\<close>: the level is set, and the fade ends
  exactly when the progress is 1.
\<close>

lemma upd_progress:
  assumes "fades s c = \<lparr> f_from = a, f_to = b, f_start = st, f_dur = d, f_active = True \<rparr>"
    and "clamp01_js (js_div (fl (t - st)) d) = Some p"
  shows "\<exists>s'. upd t c s = Inr s' \<and> base s' c = lerp a b (easeInOut p)
           \<and> (if 1 \<le> p then \<not> f_active (fades s' c) else fades s' c = fades s c)"
  using assms by (simp add: upd_def Let_def)


text \<open>A duration of zero, positive sign, and a clock difference that is positive.\<close>

lemma upd_fade_zero:
  assumes "fades s c = \<lparr> f_from = a, f_to = b, f_start = st, f_dur = Dur 0, f_active = True \<rparr>"
    and "0 < fl (t - st)"
  shows "\<exists>s'. upd t c s = Inr s' \<and> base s' c = lerp a b 1 \<and> \<not> f_active (fades s' c)"
proof -
  have "clamp01_js (js_div (fl (t - st)) (Dur 0)) = Some 1" using assms(2) by simp
  from upd_progress [OF assms(1) this] show ?thesis by (simp add: easeInOut_1)
qed

text \<open>A negative duration, or the negative zero: the level goes to \<open>from\<close>, the fade runs on.\<close>

lemma upd_fade_negative:
  assumes "fades s c = \<lparr> f_from = a, f_to = b, f_start = st, f_dur = d, f_active = True \<rparr>"
    and "(\<exists>r. d = Dur r \<and> r < 0) \<or> d = NegZero" and "0 < fl (t - st)" and "fl a = a"
  shows "\<exists>s'. upd t c s = Inr s' \<and> base s' c = a \<and> fades s' c = fades s c"
proof -
  have "clamp01_js (js_div (fl (t - st)) d) = Some 0"
  proof (cases d)
    case (Dur r)
    with assms(2) have r: "r < 0" by simp
    then have "fl (t - st) / r \<le> 0" using assms(3) by (simp add: divide_nonneg_neg order_less_imp_le divide_le_0_iff)
    then have "fl (fl (t - st) / r) \<le> fl 0" by (rule fl_mono)
    then show ?thesis using Dur r by (simp add: clamp01_le0)
  next
    case NegZero
    then show ?thesis using assms(3) by simp
  qed
  from upd_progress [OF assms(1) this] show ?thesis using assms(4)
    by (simp add: easeInOut_0 lerp_0)
qed

lemma update_cases:
  assumes "update t s = Inr s'"
  obtains "\<not> enabled s \<or> muted s" and "s' = s"
  | s1 where "upd t Ambient s = Inr s1" and "upd t Final s1 = Inr s'"
  using assms by (auto simp: update_def split: if_splits sum.splits)

lemma update_frame:
  assumes "update t s = Inr s'"
  shows "enabled s' = enabled s" "muted s' = muted s"
    "f_dur (fades s' c) = f_dur (fades s c)"
    "f_active (fades s' c) \<Longrightarrow> f_active (fades s c)"
proof -
  show "enabled s' = enabled s"
    using assms by (rule update_cases) (simp_all add: upd_frame(1))
  show "muted s' = muted s"
    using assms by (rule update_cases) (simp_all add: upd_frame(2))
  show "f_dur (fades s' c) = f_dur (fades s c)"
    using assms by (rule update_cases) (simp_all add: upd_frame(6))
  show "f_active (fades s' c) \<Longrightarrow> f_active (fades s c)"
    using assms by (rule update_cases) (auto dest: upd_frame(7))
qed

lemma update_fades_ok: "update t s = Inr s' \<Longrightarrow> fades_ok s \<Longrightarrow> fades_ok s'"
  unfolding fades_ok_def using update_frame(3,4) by metis

text \<open>
  What one step of channel \<open>c\<close> establishes of its level and descriptor, the whole
  \<^verbatim>\<open>update()\<close> establishes too, when the step of the other channel does not fail.
\<close>

lemma update_channel:
  assumes en: "enabled s" "\<not> muted s"
    and other: "\<forall>c'. c' \<noteq> c \<longrightarrow> f_active (fades s c') \<longrightarrow> nonzero (f_dur (fades s c'))"
    and step: "\<And>s0. fades s0 c = fades s c \<Longrightarrow> \<exists>s1. upd t c s0 = Inr s1 \<and> P (base s1 c) (fades s1 c)"
  shows "\<exists>s'. update t s = Inr s' \<and> P (base s' c) (fades s' c)"
proof (cases c)
  case Ambient
  obtain s1 where s1: "upd t Ambient s = Inr s1" and p: "P (base s1 Ambient) (fades s1 Ambient)"
    using step [of s] Ambient by auto
  have "fades s1 Final = fades s Final" using upd_frame(4) [OF s1, of Final] by simp
  then have "f_active (fades s1 Final) \<longrightarrow> nonzero (f_dur (fades s1 Final))"
    using other Ambient by simp
  then obtain s2 where s2: "upd t Final s1 = Inr s2" using upd_total [of s1 Final t] by auto
  have "base s2 Ambient = base s1 Ambient" "fades s2 Ambient = fades s1 Ambient"
    using upd_frame(4,5) [OF s2, of Ambient] by simp_all
  with s1 s2 p en Ambient show ?thesis by (simp add: update_def)
next
  case Final
  have "f_active (fades s Ambient) \<longrightarrow> nonzero (f_dur (fades s Ambient))"
    using other Final by simp
  then obtain s1 where s1: "upd t Ambient s = Inr s1" using upd_total [of s Ambient t] by auto
  have "fades s1 Final = fades s Final" using upd_frame(4) [OF s1, of Final] by simp
  then obtain s2 where "upd t Final s1 = Inr s2" "P (base s2 Final) (fades s2 Final)"
    using step [of s1] Final by auto
  with s1 en Final show ?thesis by (simp add: update_def)
qed

lemma update_inactive:
  assumes "fades_ok s" and "\<not> f_active (fades s c)"
  shows "\<exists>s'. update t s = Inr s' \<and> base s' c = base s c \<and> \<not> f_active (fades s' c)"
proof (cases "\<not> enabled s \<or> muted s")
  case True
  then show ?thesis using assms(2) by (auto simp: update_def)
next
  case False
  have "\<exists>s1. upd t c s0 = Inr s1 \<and> (base s1 c = base s0 c \<and> \<not> f_active (fades s1 c))"
    if "fades s0 c = fades s c" for s0
    using that assms(2) by (simp add: upd_inactive)
  moreover have "base s0 c = base s c" if "upd t Ambient s = Inr s0" "c = Final" for s0
    using upd_frame(5) [OF that(1), of Final] that(2) by simp
  ultimately show ?thesis
  proof (cases c)
    case Ambient
    have s1: "upd t Ambient s = Inr s" using assms(2) Ambient by (simp add: upd_inactive)
    have "f_active (fades s Final) \<longrightarrow> nonzero (f_dur (fades s Final))"
      using assms(1) by (simp add: fades_ok_def)
    then obtain s2 where s2: "upd t Final s = Inr s2" using upd_total [of s Final t] by auto
    have "base s2 Ambient = base s Ambient" "fades s2 Ambient = fades s Ambient"
      using upd_frame(4,5) [OF s2, of Ambient] by simp_all
    with s1 s2 False assms(2) Ambient show ?thesis by (simp add: update_def)
  next
    case Final
    have "f_active (fades s Ambient) \<longrightarrow> nonzero (f_dur (fades s Ambient))"
      using assms(1) by (simp add: fades_ok_def)
    then obtain s1 where s1: "upd t Ambient s = Inr s1" using upd_total [of s Ambient t] by auto
    have k: "fades s1 Final = fades s Final" "base s1 Final = base s Final"
      using upd_frame(4,5) [OF s1, of Final] by simp_all
    then have "upd t Final s1 = Inr s1" using assms(2) Final by (simp add: upd_inactive)
    with s1 k False assms(2) Final show ?thesis by (simp add: update_def)
  qed
qed

lemma updates_done:
  "fades_ok s \<Longrightarrow> \<not> f_active (fades s c) \<Longrightarrow> base s c = b \<Longrightarrow>
   \<exists>s'. updates ts s = Inr s' \<and> base s' c = b \<and> \<not> f_active (fades s' c)"
proof (induction ts arbitrary: s)
  case Nil
  then show ?case by simp
next
  case (Cons t ts)
  obtain s1 where s1: "update t s = Inr s1" "base s1 c = base s c" "\<not> f_active (fades s1 c)"
    using update_inactive [OF Cons.prems(1,2), of t] by auto
  have "fades_ok s1" using s1(1) Cons.prems(1) by (rule update_fades_ok)
  then show ?case using Cons.IH [of s1] s1 Cons.prems(3) by simp
qed



lemma startFade_simps:
  "enabled (startFade c a b d st s) = enabled s"
  "muted (startFade c a b d st s) = muted s"
  "fades (startFade c a b d st s) c =
     \<lparr> f_from = a, f_to = b, f_start = st, f_dur = d, f_active = True \<rparr>"
  "c' \<noteq> c \<Longrightarrow> fades (startFade c a b d st s) c' = fades s c'"
  by (simp_all add: startFade_def ensureFadeTicker_def)



lemma run_ticks_muted: "muted s \<Longrightarrow> run_ticks ks s = Inr s"
proof (induction ks)
  case Nil
  show ?case by simp
next
  case (Cons k ks)
  have "run_tick k s = Inr s"
    using Cons.prems by (cases k) (simp_all add: update_def ensurePlayback_def)
  with Cons show ?case by simp
qed

text \<open>
  C4 (mute is immediate and holds). In any state of the manager, with or without fades in
  flight, \<^verbatim>\<open>setMuted(true)\<close> leaves no fade active, both element volumes at 0, both
  elements paused and no fade ticker scheduled; and any sequence of \<^verbatim>\<open>update()\<close> and
  \<^verbatim>\<open>ensurePlayback()\<close> calls made afterwards leaves the whole manager as it was, so no
  level changes and no playback resumes while it stays muted.
\<close>

theorem mute_is_immediate:
  "(\<forall>c. \<not> f_active (fades (setMuted True s) c)
        \<and> volume (setMuted True s) c = 0
        \<and> paused (setMuted True s) c)
   \<and> \<not> fadeRaf (setMuted True s)
   \<and> (\<forall>ks. run_ticks ks (setMuted True s) = Inr (setMuted True s))"
proof -
  have "muted (setMuted True s)" by (simp add: setMuted_def Let_def)
  then have "\<forall>ks. run_ticks ks (setMuted True s) = Inr (setMuted True s)"
    by (simp add: run_ticks_muted)
  then show ?thesis by (simp add: setMuted_def Let_def)
qed

lemma audio_on_simps:
  "enabled audio_on" "\<not> muted audio_on" "\<not> f_active (fades audio_on c)"
  "masterVolume audio_on = 1"
  by (simp_all add: audio_on_def AudioManager_new_def)

text \<open>
  C5, amended (zero duration). Take a manager that is enabled and not muted, in which the
  other channel's fade, if it runs, has a duration other than zero, and start a fade of
  channel \<open>c\<close> from \<open>a\<close> to \<open>b\<close>, levels in [0, 1], with the duration \<open>+0\<close> at clock
  time \<open>st\<close>. The first \<^verbatim>\<open>update()\<close>, made at a clock time strictly after \<open>st\<close>, does
  not fail, sets the base level of \<open>c\<close> to \<open>lerp a b 1\<close> and leaves the descriptor
  inactive; and that level is \<open>b\<close> itself whenever \<open>a = 0\<close> or \<open>b = 0\<close>.
\<close>

theorem zero_duration_snaps:
  assumes "enabled s" and "\<not> muted s"
    and "\<forall>c'. c' \<noteq> c \<longrightarrow> f_active (fades s c') \<longrightarrow> nonzero (f_dur (fades s c'))"
    and "fl st = st" and "fl t = t" and "st < t"
    and "fl a = a" and "fl b = b" and "0 \<le> a \<and> a \<le> 1" and "0 \<le> b \<and> b \<le> 1"
  shows "(\<exists>s'. update t (startFade c a b (Dur 0) st s) = Inr s'
              \<and> base s' c = lerp a b 1 \<and> \<not> f_active (fades s' c))
       \<and> (a = 0 \<or> b = 0 \<longrightarrow> lerp a b 1 = b)"
proof -
  let ?S = "startFade c a b (Dur 0) st s"
  let ?P = "\<lambda>v f. v = lerp a b 1 \<and> \<not> f_active f"
  have en: "enabled ?S" "\<not> muted ?S" using assms(1,2) by (simp_all add: startFade_simps)
  have other: "\<forall>c'. c' \<noteq> c \<longrightarrow> f_active (fades ?S c') \<longrightarrow> nonzero (f_dur (fades ?S c'))"
    using assms(3) by (simp add: startFade_simps)
  have pos: "0 < fl (t - st)" using assms(5,4,6) by (rule fl_diff_pos)
  have "\<exists>s1. upd t c s0 = Inr s1 \<and> ?P (base s1 c) (fades s1 c)"
    if "fades s0 c = fades ?S c" for s0
    using upd_fade_zero [of s0 c a b st t] that pos by (simp add: startFade_simps)
  from update_channel [where P = ?P, OF en other this]
  have "\<exists>s'. update t ?S = Inr s' \<and> base s' c = lerp a b 1 \<and> \<not> f_active (fades s' c)"
    by simp
  moreover have "lerp a b 1 = b" if "a = 0 \<or> b = 0"
    using assms(7,8) that by (rule lerp_1_exact)
  ultimately show ?thesis by blast
qed


theorem mute_is_immediate_witness:
  "volume (setMuted True (projr (update 1000 (startFade Ambient 0 (1/4) (Dur 2000) 0 audio_on)))) Ambient = 0
   \<and> run_ticks [Update 1016, EnsurePlayback (\<lambda>_. True), Update 3000]
        (setMuted True (projr (update 1000 (startFade Ambient 0 (1/4) (Dur 2000) 0 audio_on))))
     = Inr (setMuted True (projr (update 1000 (startFade Ambient 0 (1/4) (Dur 2000) 0 audio_on))))"
  using mute_is_immediate [of "projr (update 1000 (startFade Ambient 0 (1/4) (Dur 2000) 0 audio_on))"]
  by simp

theorem zero_duration_snaps_witness:
  "\<exists>s'. update 16 (startFade Ambient 0 (1/4) (Dur 0) 0 audio_on) = Inr s'
        \<and> base s' Ambient = 1/4 \<and> \<not> f_active (fades s' Ambient)"
proof -
  have h: "enabled audio_on" "\<not> muted audio_on"
    "\<forall>c'. c' \<noteq> Ambient \<longrightarrow> f_active (fades audio_on c') \<longrightarrow> nonzero (f_dur (fades audio_on c'))"
    "fl 0 = 0" "fl 16 = 16" "(0::real) < 16" "fl 0 = 0" "fl (1/4) = 1/4"
    "(0::real) \<le> 0 \<and> (0::real) \<le> 1" "(0::real) \<le> 1/4 \<and> (1/4::real) \<le> 1"
    by (simp_all add: audio_on_simps fl_16 fl_quarter)
  note T = zero_duration_snaps [OF h]
  have L: "lerp 0 (1/4) 1 = 1/4"
    using T [THEN conjunct2] by blast
  from T [THEN conjunct1, unfolded L] show ?thesis .
qed

lemma update_negative:
  assumes "(\<exists>r. d = Dur r \<and> r < 0) \<or> d = NegZero"
  shows "\<exists>s'. update 16 (startFade Ambient 0 1 d 0 audio_on) = Inr s'
           \<and> base s' Ambient = 0 \<and> f_active (fades s' Ambient)"
proof -
  let ?S = "startFade Ambient 0 1 d 0 audio_on"
  let ?P = "\<lambda>v f. v = (0::real) \<and> f_active f"
  have en: "enabled ?S" "\<not> muted ?S" by (simp_all add: startFade_simps audio_on_simps)
  have other: "\<forall>c'. c' \<noteq> Ambient \<longrightarrow> f_active (fades ?S c') \<longrightarrow> nonzero (f_dur (fades ?S c'))"
    by (simp add: startFade_simps audio_on_simps)
  have pos: "0 < fl (16 - 0)" by (simp add: fl_16)
  have "\<exists>s1. upd 16 Ambient s0 = Inr s1 \<and> ?P (base s1 Ambient) (fades s1 Ambient)"
    if "fades s0 Ambient = fades ?S Ambient" for s0
    using upd_fade_negative [of s0 Ambient 0 1 0 d 16] that assms pos
    by (fastforce simp: startFade_simps)
  from update_channel [where P = ?P, OF en other this] show ?thesis by simp
qed

text \<open>
  With a negative duration the quotient is negative and clamps to 0: the update puts the
  level at \<open>from\<close> (here 0, the target being 1) and the fade stays active. The negative
  zero does the same, its quotient being \<open>-Infinity\<close>.
\<close>

theorem negative_duration_never_snaps:
  "\<not> isl (update 16 (startFade Ambient 0 1 (Dur (- 1000)) 0 audio_on))
   \<and> base (projr (update 16 (startFade Ambient 0 1 (Dur (- 1000)) 0 audio_on))) Ambient = 0
   \<and> f_active (fades (projr (update 16 (startFade Ambient 0 1 (Dur (- 1000)) 0 audio_on))) Ambient)"
proof -
  obtain s' where "update 16 (startFade Ambient 0 1 (Dur (- 1000)) 0 audio_on) = Inr s'"
    "base s' Ambient = 0" "f_active (fades s' Ambient)"
    using update_negative [of "Dur (- 1000)"] by auto
  then show ?thesis by simp
qed

lemma negative_zero_duration_never_snaps:
  "\<not> isl (update 16 (startFade Ambient 0 1 NegZero 0 audio_on))
   \<and> base (projr (update 16 (startFade Ambient 0 1 NegZero 0 audio_on))) Ambient = 0
   \<and> f_active (fades (projr (update 16 (startFade Ambient 0 1 NegZero 0 audio_on))) Ambient)"
proof -
  obtain s' where "update 16 (startFade Ambient 0 1 NegZero 0 audio_on) = Inr s'"
    "base s' Ambient = 0" "f_active (fades s' Ambient)"
    using update_negative [of NegZero] by auto
  then show ?thesis by simp
qed

text \<open>An update at the very instant of the start of a zero-duration fade computes 0/0.\<close>

lemma zero_duration_same_instant:
  "update 0 (startFade Ambient 0 1 (Dur 0) 0 audio_on) = Inl NonFiniteVolume"
  by (simp add: update_def upd_def startFade_def ensureFadeTicker_def audio_on_def
      AudioManager_new_def Let_def)




text \<open>
  A mute halfway through a fade cancels it, and no fade supersedes it: after unmuting,
  updates past the end of the window leave the level where the mute found it.
\<close>

lemma mute_in_window_stops_fade:
  "\<exists>s1 s'. update 1000 (startFade Ambient 0 (1/4) (Dur 2000) 0 audio_on) = Inr s1
      \<and> base s1 Ambient = 1/8
      \<and> updates [2000, 3000] (setMuted False (setMuted True s1)) = Inr s'
      \<and> base s' Ambient = 1/8"
proof -
  let ?S = "startFade Ambient 0 (1/4) (Dur 2000) 0 audio_on"
  let ?P = "\<lambda>v f. v = (1/8::real)"
  have en: "enabled ?S" "\<not> muted ?S" by (simp_all add: startFade_simps audio_on_simps)
  have other: "\<forall>c'. c' \<noteq> Ambient \<longrightarrow> f_active (fades ?S c') \<longrightarrow> nonzero (f_dur (fades ?S c'))"
    by (simp add: startFade_simps audio_on_simps)
  have q: "clamp01_js (js_div (fl (1000 - 0)) (Dur 2000)) = Some (1/2)"
    by (simp add: fl_1000 fl_half clamp01_def)
  have l: "lerp 0 (1/4) (1/2) = 1/8"
    by (simp add: lerp_def fl_quarter fl_eighth)
  have "\<exists>s1. upd 1000 Ambient s0 = Inr s1 \<and> ?P (base s1 Ambient) (fades s1 Ambient)"
    if "fades s0 Ambient = fades ?S Ambient" for s0
    using upd_progress [of s0 Ambient 0 "1/4" 0 "Dur 2000" 1000 "1/2"] that q
    by (auto simp: startFade_simps easeInOut_half l)
  from update_channel [where P = ?P, OF en other this]
  obtain s1 where s1: "update 1000 ?S = Inr s1" "base s1 Ambient = 1/8" by auto
  let ?m = "setMuted False (setMuted True s1)"
  have "fades_ok ?m" "\<not> f_active (fades ?m Ambient)" "base ?m Ambient = 1/8"
    using s1(2) by (simp_all add: setMuted_def Let_def fades_ok_def)
  from updates_done [OF this, of "[2000, 3000]"] s1 show ?thesis by blast
qed

section \<open>Properties of the MiniGameManager\<close>

lemma close_simps:
  "resolve (close s) = resolve s" "resolved (close s) = resolved s"
  "promises (close s) = promises s" "active (close s) = None" "openedAt (close s) = 0"
  by (simp_all add: close_def Let_def split: option.splits)

lemma close_idem: "active s = None \<Longrightarrow> openedAt s = 0 \<Longrightarrow> screenHidden s \<Longrightarrow> close s = s"
  by (simp add: close_def)

lemma open_simps:
  "fst (open t g s) = promises s"
  "resolve (snd (open t g s)) = Some (promises s)"
  "resolved (snd (open t g s)) = resolved s"
  "promises (snd (open t g s)) = Suc (promises s)"
  "active (snd (open t g s)) = Some g"
  "openedAt (snd (open t g s)) = t"
  by (simp_all add: open_def Let_def close_simps)

text \<open>Once the resolve function is gone no signal resolves anything.\<close>

lemma send_unresolving:
  "resolve s = None \<Longrightarrow> resolve (send x s) = None \<and> resolved (send x s) = resolved s"
  by (cases x) (simp_all add: finish_def cancel_def close_simps)

lemma send_all_unresolving:
  "resolve s = None \<Longrightarrow> resolved (send_all xs s) = resolved s"
  by (induction xs arbitrary: s) (simp_all add: send_unresolving)

lemma send_ineffective:
  "\<not> effective (openedAt s) x \<Longrightarrow> send x s = s"
  by (cases x) (simp_all add: cancel_def)

lemma send_effective:
  "effective (openedAt s) x \<Longrightarrow> resolve s = Some p \<Longrightarrow>
   resolve (send x s) = None \<and> resolved (send x s) = resolved s @ [(p, x = OnComplete)]"
  by (cases x) (auto simp: finish_def cancel_def close_simps Let_def)

lemma send_all_pending:
  "resolve s = Some p \<Longrightarrow>
   resolved (send_all xs s) = resolved s @
     (case find (effective (openedAt s)) xs of
        None \<Rightarrow> [] | Some x \<Rightarrow> [(p, x = OnComplete)])"
proof (induction xs)
  case Nil
  then show ?case by simp
next
  case (Cons x xs)
  show ?case
  proof (cases "effective (openedAt s) x")
    case True
    then show ?thesis
      using send_effective [OF True Cons.prems] 
      by (simp add: send_all_unresolving)
  next
    case False
    then show ?thesis using Cons send_ineffective [OF False] by simp
  qed
qed

text \<open>
  C1, amended (single resolution). After \<^verbatim>\<open>open(game)\<close> at time \<open>t0\<close>, whatever signals
  the open mini-game sends, the resolve calls that follow are none or exactly one, for
  the promise that this \<^verbatim>\<open>open\<close> returned: none as long as every signal is a click
  dropped by the 280 ms guard (or there is no signal), and otherwise one call, made at the
  first signal that takes effect, with \<open>true\<close> if and only if that signal is
  \<^verbatim>\<open>onComplete\<close>. Later signals resolve nothing.
\<close>

theorem single_resolution:
  "resolved (send_all xs (snd (open t0 g s))) =
     resolved s @
       (case find (effective t0) xs of
          None \<Rightarrow> []
        | Some x \<Rightarrow> [(fst (open t0 g s), x = OnComplete)])"
  using send_all_pending [of "snd (open t0 g s)" "promises s" xs]
  by (simp add: open_simps split: option.splits)

theorem single_resolution_witness:
  "resolved (send_all [Dismiss 1100, OnComplete, Dismiss 2000, OnCancel, OnComplete]
               (snd (open 1000 game1 MiniGameManager_new))) = [(0, True)]"
  using single_resolution [of "[Dismiss 1100, OnComplete, Dismiss 2000, OnCancel, OnComplete]" 1000 game1 MiniGameManager_new]
  by (simp add: open_simps MiniGameManager_new_def)

text \<open>
  A click on the close button 100 ms after the game was opened is a close signal sent to
  the open mini-game, and the promise is not resolved.
\<close>

theorem early_dismiss_resolves_nothing:
  "resolved (send_all [Dismiss 1100] (snd (open 1000 game1 MiniGameManager_new))) = []"
  by (simp add: open_def close_def cancel_def MiniGameManager_new_def Let_def)


lemma finish_dropped: "dropped p s0 s \<Longrightarrow> dropped p s0 (finish ok s)"
  by (cases "resolve s") (auto simp: dropped_def finish_def close_simps Let_def)

lemma send_dropped: "dropped p s0 s \<Longrightarrow> dropped p s0 (send x s)"
  by (cases x) (simp_all add: cancel_def finish_dropped)

lemma open_dropped: "dropped p s0 s \<Longrightarrow> dropped p s0 (snd (open t g s))"
  by (auto simp: dropped_def open_simps)

lemma step_dropped: "dropped p s0 s \<Longrightarrow> dropped p s0 (step e s)"
  by (cases e) (simp_all add: send_dropped open_dropped)

lemma run_dropped: "dropped p s0 s \<Longrightarrow> dropped p s0 (run es s)"
  by (induction es arbitrary: s) (simp_all add: step_dropped)

lemma dropped_outcomes: "dropped p s0 s \<Longrightarrow> outcomes p (resolved_since s0 s) = []"
  by (auto simp: dropped_def outcomes_def resolved_since_def filter_empty_conv)

lemma open_unmounts:
  "unmounts (snd (open t g s)) = unmounts s @ (case active s of None \<Rightarrow> [] | Some g' \<Rightarrow> [g'])"
  by (simp add: open_def close_def Let_def split: option.splits)

text \<open>
  C10 (a second \<^verbatim>\<open>open\<close> drops the first promise). When \<^verbatim>\<open>open(g2)\<close> is called while
  the game \<open>g1\<close> of an earlier \<^verbatim>\<open>open(g1)\<close> is active, \<open>g1\<close> is unmounted and \<open>g2\<close> becomes
  the active game; and whatever signals and further \<^verbatim>\<open>open\<close> calls follow, no resolve
  call is ever made for the promise that \<^verbatim>\<open>open(g1)\<close> returned, with either value.
\<close>

theorem reopen_drops_promise:
  "unmounts (snd (open t2 g2 (snd (open t1 g1 s)))) = unmounts (snd (open t1 g1 s)) @ [g1]
   \<and> active (snd (open t2 g2 (snd (open t1 g1 s)))) = Some g2
   \<and> outcomes (fst (open t1 g1 s))
        (resolved_since s (run es (snd (open t2 g2 (snd (open t1 g1 s)))))) = []"
proof -
  have "dropped (promises s) s (snd (open t2 g2 (snd (open t1 g1 s))))"
    by (simp add: dropped_def open_simps)
  then have "dropped (promises s) s (run es (snd (open t2 g2 (snd (open t1 g1 s)))))"
    by (rule run_dropped)
  then show ?thesis
    by (simp add: dropped_outcomes open_simps open_unmounts)
qed

theorem reopen_drops_promise_witness:
  "outcomes 0 (resolved (run [Signal OnComplete, Signal OnCancel, Open 5000 game1, Signal (Dismiss 9000)]
      (snd (open 2000 game2 (snd (open 1000 game1 MiniGameManager_new)))))) = []
   \<and> resolved (run [Signal OnComplete, Signal OnCancel, Open 5000 game1, Signal (Dismiss 9000)]
      (snd (open 2000 game2 (snd (open 1000 game1 MiniGameManager_new))))) = [(1, True), (2, False)]"
proof -
  have "resolved (run [Signal OnComplete, Signal OnCancel, Open 5000 game1, Signal (Dismiss 9000)]
      (snd (open 2000 game2 (snd (open 1000 game1 MiniGameManager_new))))) = [(1, True), (2, False)]"
    by (simp add: open_def close_def cancel_def finish_def MiniGameManager_new_def Let_def)
  with reopen_drops_promise [of 2000 game2 1000 game1 MiniGameManager_new
      "[Signal OnComplete, Signal OnCancel, Open 5000 game1, Signal (Dismiss 9000)]"]
  show ?thesis
    by (simp add: resolved_since_def MiniGameManager_new_def open_simps)
qed

section \<open>Properties of the phrase assignment\<close>

lemma pool_nonempty: "getInteractionPhrases \<noteq> []"
  by (simp add: getInteractionPhrases_def)

lemma pool_truthy: "p \<in> set getInteractionPhrases \<Longrightarrow> p \<noteq> []"
  by (auto simp: getInteractionPhrases_def)

lemma random_index_less:
  assumes "0 \<le> r" and "r < 1" and "0 < n"
  shows "random_index r n < n"
proof -
  have "r * real n < real n" using assms by simp
  then have "\<lfloor>r * real n\<rfloor> < int n" by (simp add: floor_less_iff)
  moreover have "0 \<le> \<lfloor>r * real n\<rfloor>" using assms by simp
  ultimately show ?thesis unfolding random_index_def by linarith
qed

text \<open>The phrase drawn when the object has none.\<close>

lemma drawn_phrase:
  assumes "0 \<le> r" and "r < 1" and "\<not> truthy (map_of m k)"
  shows "fst (getOrAssignPhrase r k m) \<in> set getInteractionPhrases"
    and "snd (getOrAssignPhrase r k m) = AList.update k (fst (getOrAssignPhrase r k m)) m"
    and "(\<exists>p\<in>set getInteractionPhrases. p \<notin> snd ` set m)
          \<Longrightarrow> fst (getOrAssignPhrase r k m) \<notin> snd ` set m"
proof -
  let ?av = "filter (\<lambda>p. p \<notin> set (map snd m)) getInteractionPhrases"
  let ?pick = "if length ?av > 0 then ?av else getInteractionPhrases"
  have ne: "0 < length ?pick" using pool_nonempty by simp
  have idx: "random_index r (length ?pick) < length ?pick"
    using random_index_less [OF assms(1,2) ne] .
  have fst_eq: "fst (getOrAssignPhrase r k m) = ?pick ! random_index r (length ?pick)"
    using assms(3) by (simp add: getOrAssignPhrase_def Let_def)
  have mem: "?pick ! random_index r (length ?pick) \<in> set ?pick"
    using idx by (rule nth_mem)
  have sub: "set ?pick \<subseteq> set getInteractionPhrases" by auto
  show "fst (getOrAssignPhrase r k m) \<in> set getInteractionPhrases"
    using fst_eq mem sub by auto
  show "snd (getOrAssignPhrase r k m) = AList.update k (fst (getOrAssignPhrase r k m)) m"
    using assms(3) by (simp add: getOrAssignPhrase_def Let_def)
  show "fst (getOrAssignPhrase r k m) \<notin> snd ` set m"
    if "\<exists>p\<in>set getInteractionPhrases. p \<notin> snd ` set m"
  proof -
    from that have "?av \<noteq> []" by (auto simp: filter_empty_conv)
    then have "?pick = ?av" by simp
    with mem have "?pick ! random_index r (length ?pick) \<in> set ?av" by simp
    then show ?thesis using fst_eq by auto
  qed
qed

lemma kept_phrase:
  assumes "truthy (map_of m k)"
  shows "getOrAssignPhrase r k m = (the (map_of m k), m)"
  using assms by (simp add: getOrAssignPhrase_def Let_def)

lemma truthy_Some: "truthy x \<longleftrightarrow> (\<exists>p. x = Some p \<and> p \<noteq> [])"
  by (cases x) simp_all

text \<open>After a call the object has a non-empty phrase, the one returned.\<close>

lemma assigned_after:
  assumes "0 \<le> r" and "r < 1"
  shows "map_of (snd (getOrAssignPhrase r k m)) k = Some (fst (getOrAssignPhrase r k m))
       \<and> fst (getOrAssignPhrase r k m) \<noteq> []"
proof (cases "truthy (map_of m k)")
  case True
  then show ?thesis by (auto simp: kept_phrase truthy_Some)
next
  case False
  from drawn_phrase(1,2) [OF assms False] show ?thesis
    by (simp add: update_conv pool_truthy)
qed

text \<open>A non-empty phrase survives every call, for whatever object and random number.\<close>

lemma call_keeps:
  assumes "map_of m k = Some p" and "p \<noteq> []"
  shows "map_of (snd (getOrAssignPhrase r k' m)) k = Some p"
proof (cases "truthy (map_of m k')")
  case True
  then show ?thesis using assms by (simp add: kept_phrase)
next
  case False
  with assms have "k' \<noteq> k" by auto
  with assms False show ?thesis
    by (simp add: getOrAssignPhrase_def Let_def update_conv)
qed

lemma assign_all_keeps:
  "map_of m k = Some p \<Longrightarrow> p \<noteq> [] \<Longrightarrow> map_of (assign_all cs m) k = Some p"
proof (induction cs arbitrary: m)
  case Nil
  then show ?case by simp
next
  case (Cons c cs)
  obtain r k' where c: "c = (r, k')" by (cases c)
  have "map_of (snd (getOrAssignPhrase r k' m)) k = Some p"
    using Cons.prems by (rule call_keeps)
  then have "map_of (assign_all cs (snd (getOrAssignPhrase r k' m))) k = Some p"
    using Cons.prems(2) by (rule Cons.IH)
  then show ?case using c by simp
qed

text \<open>
  C3 (idempotent phrase assignment). Let \<open>r\<close> be a value of \<^verbatim>\<open>Math.random()\<close>, so
  \<open>0 \<le> r < 1\<close>. Whatever the map holds, a call of \<^verbatim>\<open>_getOrAssignPhrase\<close> for an object
  followed by a second call for the same object returns the same phrase and leaves the
  map as the first call left it; the phrase of that object stays the same through any
  further calls, for any objects; and when the object had no phrase and some phrase of the
  pool is not in use, the phrase it receives is the phrase of no other object.
\<close>

theorem phrase_assignment:
  assumes "0 \<le> r" and "r < 1"
  shows "getOrAssignPhrase r' k (snd (getOrAssignPhrase r k m)) = getOrAssignPhrase r k m
       \<and> (\<forall>cs. map_of (assign_all cs (snd (getOrAssignPhrase r k m))) k
                 = Some (fst (getOrAssignPhrase r k m)))
       \<and> (\<not> truthy (map_of m k) \<and> (\<exists>p\<in>set getInteractionPhrases. p \<notin> snd ` set m)
            \<longrightarrow> (\<forall>k'. k' \<noteq> k \<longrightarrow>
                   map_of (snd (getOrAssignPhrase r k m)) k' \<noteq> Some (fst (getOrAssignPhrase r k m))))"
proof -
  let ?p = "fst (getOrAssignPhrase r k m)" and ?m = "snd (getOrAssignPhrase r k m)"
  have a: "map_of ?m k = Some ?p" "?p \<noteq> []"
    using assigned_after [OF assms] by simp_all
  then have "truthy (map_of ?m k)" by simp
  then have 1: "getOrAssignPhrase r' k ?m = getOrAssignPhrase r k m"
    using a by (simp add: kept_phrase prod_eq_iff)
  have 2: "\<forall>cs. map_of (assign_all cs ?m) k = Some ?p"
    using assign_all_keeps [OF a] by simp
  have 3: "\<forall>k'. k' \<noteq> k \<longrightarrow> map_of ?m k' \<noteq> Some ?p"
    if f: "\<not> truthy (map_of m k)" and u: "\<exists>p\<in>set getInteractionPhrases. p \<notin> snd ` set m"
  proof (intro allI impI notI)
    fix k' assume "k' \<noteq> k" and "map_of ?m k' = Some ?p"
    then have "map_of m k' = Some ?p"
      using drawn_phrase(2) [OF assms f] by (simp add: update_conv)
    then have "?p \<in> snd ` set m" by (force dest: map_of_SomeD)
    with drawn_phrase(3) [OF assms f u] show False by simp
  qed
  from 1 2 3 show ?thesis by blast
qed


theorem phrase_assignment_witness:
  "getOrAssignPhrase 0 ''moon'' (snd (getOrAssignPhrase (1/2) ''moon'' phrases1))
     = getOrAssignPhrase (1/2) ''moon'' phrases1
   \<and> map_of (assign_all [(0, ''flower''), (9/10, ''moon''), (3, ''seal'')]
        (snd (getOrAssignPhrase (1/2) ''moon'' phrases1))) ''moon''
     = Some (fst (getOrAssignPhrase (1/2) ''moon'' phrases1))
   \<and> map_of (snd (getOrAssignPhrase (1/2) ''moon'' phrases1)) ''star''
     \<noteq> Some (fst (getOrAssignPhrase (1/2) ''moon'' phrases1))"
proof -
  have h: "(0::real) \<le> 1/2" "(1/2::real) < 1" by simp_all
  have f: "\<not> truthy (map_of phrases1 ''moon'')" by (simp add: phrases1_def)
  have u1: "''Hay momentos simples que contigo se vuelven mis favoritos.'' \<in> set getInteractionPhrases"
    unfolding getInteractionPhrases_def by (rule list.set_intros(1))
  have u2: "''Hay momentos simples que contigo se vuelven mis favoritos.'' \<notin> snd ` set phrases1"
    by (simp add: phrases1_def)
  have u: "\<exists>p\<in>set getInteractionPhrases. p \<notin> snd ` set phrases1"
    using u1 u2 by (rule bexI [rotated])
  have n: "''star'' \<noteq> ''moon''" by simp
  note T = phrase_assignment [OF h, of 0 "''moon''" phrases1]
  have c1: "getOrAssignPhrase 0 ''moon'' (snd (getOrAssignPhrase (1/2) ''moon'' phrases1))
     = getOrAssignPhrase (1/2) ''moon'' phrases1"
    using T by (rule conjunct1)
  have c2: "map_of (assign_all [(0, ''flower''), (9/10, ''moon''), (3, ''seal'')]
        (snd (getOrAssignPhrase (1/2) ''moon'' phrases1))) ''moon''
     = Some (fst (getOrAssignPhrase (1/2) ''moon'' phrases1))"
    using T [THEN conjunct2, THEN conjunct1] by (rule spec)
  have c3: "map_of (snd (getOrAssignPhrase (1/2) ''moon'' phrases1)) ''star''
     \<noteq> Some (fst (getOrAssignPhrase (1/2) ''moon'' phrases1))"
    using T [THEN conjunct2, THEN conjunct2, rule_format, OF conjI [OF f u] n] .
  from c1 c2 c3 show ?thesis by (intro conjI)
qed

section \<open>Properties of the StorageManager\<close>

lemma keys_by_index:
  "map (\<lambda>i. f (key ls i)) [0..<length ls] = map (\<lambda>p. f (Some (fst p))) ls"
proof -
  have "map (\<lambda>i. f (key ls i)) [0..<length ls]
      = map (\<lambda>i. f (Some (fst (ls ! i)))) [0..<length ls]"
    by (rule map_cong) (simp_all add: key_def)
  also have "\<dots> = map (\<lambda>p. f (Some (fst p))) (map (\<lambda>i. ls ! i) [0..<length ls])"
    by (simp add: comp_def)
  also have "\<dots> = map (\<lambda>p. f (Some (fst p))) ls"
    by (simp only: map_nth)
  finally show ?thesis .
qed

lemma fold_removeItem:
  "map_of (fold removeItem ks ls) k = (if k \<in> set ks then None else map_of ls k)"
  by (induction ks arbitrary: ls) (simp_all add: removeItem_def delete_conv)

lemma load_alt:
  "load parse storageKey ls =
     (let ls2 = (if \<not> truthy (getItem ls (storageKey @ ''__reset_once_2026_01''))
                 then wiped (storageKey @ ''__reset_once_2026_01'') ls else ls)
      in if \<not> truthy (getItem ls2 storageKey) then (default_record, ls2)
         else (decode (parse (the (getItem ls2 storageKey))), ls2))"
proof -
  have k: "concat (map (\<lambda>i. case key l i of None \<Rightarrow> []
              | Some k \<Rightarrow> if k = [] then [] else if k = m then [] else [k]) [0..<length l])
         = filter (\<lambda>k. k \<noteq> [] \<and> k \<noteq> m) (map fst l)" for l :: storage and m
    unfolding keys_by_index [of "\<lambda>x. case x of None \<Rightarrow> []
              | Some k \<Rightarrow> if k = [] then [] else if k = m then [] else [k]" l]
    by (induction l) auto
  show ?thesis
    unfolding load_def Let_def k wiped_def by (rule refl)
qed

lemma load_storage:
  "snd (load parse storageKey ls) =
     (if truthy (getItem ls (storageKey @ ''__reset_once_2026_01'')) then ls
      else wiped (storageKey @ ''__reset_once_2026_01'') ls)"
  by (simp add: load_alt Let_def)

lemma wiped_lookup:
  "map_of (wiped marker ls) k =
     (if k = marker then Some ''1'' else if k = [] then map_of ls [] else None)"
proof -
  let ?ls1 = "setItem marker ''1'' ls"
  have m: "map_of ?ls1 = (map_of ls)(marker \<mapsto> ''1'')"
    by (simp add: setItem_def update_conv')
  have "k \<notin> fst ` set ?ls1 \<Longrightarrow> map_of ?ls1 k = None"
    by (simp add: map_of_eq_None_iff)
  then show ?thesis
    using m by (auto simp: wiped_def Let_def fold_removeItem)
qed

text \<open>
  What does hold of the first \<^verbatim>\<open>load()\<close>, when the marker is absent: the marker is set,
  every key other than the marker and the empty key is gone, the empty key keeps what it
  had, the default record is returned (for a storage key that is not empty), and a second
  \<^verbatim>\<open>load()\<close> removes nothing.
\<close>

lemma first_load_wipes:
  assumes "\<not> truthy (getItem ls (storageKey @ ''__reset_once_2026_01''))"
  shows "getItem (snd (load parse storageKey ls)) (storageKey @ ''__reset_once_2026_01'') = Some ''1''
       \<and> (\<forall>k. k \<noteq> [] \<and> k \<noteq> storageKey @ ''__reset_once_2026_01''
              \<longrightarrow> getItem (snd (load parse storageKey ls)) k = None)
       \<and> getItem (snd (load parse storageKey ls)) [] = getItem ls []
       \<and> (storageKey \<noteq> [] \<longrightarrow> fst (load parse storageKey ls) = default_record)
       \<and> snd (load parse' storageKey (snd (load parse storageKey ls))) = snd (load parse storageKey ls)"
proof -
  let ?m = "storageKey @ ''__reset_once_2026_01''"
  have s: "snd (load parse storageKey ls) = wiped ?m ls"
    using assms by (simp add: load_storage)
  have 1: "getItem (wiped ?m ls) ?m = Some ''1''"
    by (simp add: getItem_def wiped_lookup)
  have 2: "\<forall>k. k \<noteq> [] \<and> k \<noteq> ?m \<longrightarrow> getItem (wiped ?m ls) k = None"
    by (simp add: getItem_def wiped_lookup)
  have 3: "getItem (wiped ?m ls) [] = getItem ls []"
    by (simp add: getItem_def wiped_lookup)
  have 4: "fst (load parse storageKey ls) = default_record" if "storageKey \<noteq> []"
  proof -
    have "getItem (wiped ?m ls) storageKey = None"
      using that 2 by simp
    then show ?thesis
      using assms by (simp add: load_alt Let_def)
  qed
  have 5: "snd (load parse' storageKey (wiped ?m ls)) = wiped ?m ls"
    using 1 by (simp add: load_storage)
  from 1 2 3 4 5 s show ?thesis by simp
qed


text \<open>
  C9 (the one-time wipe): on the first \<^verbatim>\<open>load()\<close>, with the marker absent, every key
  other than the marker is to be removed. On a storage that holds the key \<^verbatim>\<open>""\<close> the
  code does not do so: the loop skips that key, since \<^verbatim>\<open>!k\<close> is true of the empty string
  as it is of \<^verbatim>\<open>null\<close>, and the key is still there, with its value, after the call.
\<close>

theorem load_keeps_empty_key:
  "getItem (snd (load (\<lambda>_. None) ''beautiful_emotional_game_v1''
            [('''', ''x''), (''beautiful_emotional_game_v1'', ''{}'')])) '''' = Some ''x''"
  by (simp add: load_storage wiped_lookup getItem_def)

lemma empty_key_survives:
  "snd (load (\<lambda>_. None) ''beautiful_emotional_game_v1''
            [('''', ''x''), (''beautiful_emotional_game_v1'', ''{}'')])
   = [('''', ''x''), (''beautiful_emotional_game_v1__reset_once_2026_01'', ''1'')]"
  by (simp add: load_storage wiped_def setItem_def removeItem_def getItem_def)

section \<open>Properties of the finale timeline\<close>

lemma updateFinalTimeline_nodes:
  "length (nodes (updateFinalTimeline t tln)) = length (nodes tln)"
  "i < length (nodes tln) \<Longrightarrow> nodes tln ! i \<Longrightarrow> nodes (updateFinalTimeline t tln) ! i"
  "revealed tln \<le> revealed (updateFinalTimeline t tln)"
  by (auto simp: updateFinalTimeline_def Let_def nth_list_update)

lemma timeline_ticks_mono:
  "length (nodes (timeline_ticks ts tln)) = length (nodes tln)
   \<and> (\<forall>i. i < length (nodes tln) \<and> nodes tln ! i \<longrightarrow> nodes (timeline_ticks ts tln) ! i)
   \<and> revealed tln \<le> revealed (timeline_ticks ts tln)"
proof (induction ts arbitrary: tln)
  case Nil
  show ?case by simp
next
  case (Cons t ts)
  let ?u = "updateFinalTimeline t tln"
  note ih = Cons.IH [of ?u]
  have len: "length (nodes ?u) = length (nodes tln)"
    by (rule updateFinalTimeline_nodes(1))
  have "nodes (timeline_ticks ts ?u) ! i" if "i < length (nodes tln)" and "nodes tln ! i" for i
  proof -
    have "nodes ?u ! i" using that by (rule updateFinalTimeline_nodes(2))
    then show ?thesis using ih that(1) len by simp
  qed
  moreover have "revealed tln \<le> revealed (timeline_ticks ts ?u)"
    using ih updateFinalTimeline_nodes(3) [of tln t] by (blast intro: order_trans)
  ultimately show ?case using ih len by simp
qed

text \<open>
  C7, amended (finale timeline). A tick reveals at most one segment: the next one not yet
  revealed, and exactly when there is one and its due time
  \<open>baseDelay + index * stepDelay\<close> after the start has elapsed; otherwise the tick changes
  nothing. Through any sequence of ticks a segment that is visible stays visible and the
  number of revealed segments does not decrease.
\<close>

theorem finale_reveals_next_when_due:
  "revealed (updateFinalTimeline t tln) =
     (if revealed tln < length (nodes tln)
         \<and> baseDelay tln + real (revealed tln) * stepDelay tln \<le> t - tl_start tln
      then revealed tln + 1 else revealed tln)
   \<and> nodes (updateFinalTimeline t tln) =
     (if revealed tln < length (nodes tln)
         \<and> baseDelay tln + real (revealed tln) * stepDelay tln \<le> t - tl_start tln
      then (nodes tln)[revealed tln := True] else nodes tln)
   \<and> (\<forall>ts i. i < length (nodes tln) \<and> nodes tln ! i \<longrightarrow> nodes (timeline_ticks ts tln) ! i)
   \<and> (\<forall>ts. revealed tln \<le> revealed (timeline_ticks ts tln))"
proof -
  have "revealed (updateFinalTimeline t tln) =
     (if revealed tln < length (nodes tln)
         \<and> baseDelay tln + real (revealed tln) * stepDelay tln \<le> t - tl_start tln
      then revealed tln + 1 else revealed tln)"
    by (simp add: updateFinalTimeline_def Let_def)
  moreover have "nodes (updateFinalTimeline t tln) =
     (if revealed tln < length (nodes tln)
         \<and> baseDelay tln + real (revealed tln) * stepDelay tln \<le> t - tl_start tln
      then (nodes tln)[revealed tln := True] else nodes tln)"
    by (simp add: updateFinalTimeline_def Let_def)
  ultimately show ?thesis using timeline_ticks_mono by blast
qed

theorem finale_reveals_next_when_due_witness:
  "nodes (timeline_ticks [916, 3016, 3032] (startFinalTimeline False 0)) ! 0
   \<and> revealed (updateFinalTimeline 916 (startFinalTimeline False 0)) = 1"
proof -
  let ?t0 = "startFinalTimeline False 0"
  let ?t1 = "updateFinalTimeline 916 ?t0"
  have c: "revealed ?t0 < length (nodes ?t0)
      \<and> baseDelay ?t0 + real (revealed ?t0) * stepDelay ?t0 \<le> 916 - tl_start ?t0"
    by (simp add: startFinalTimeline_def getFinalMessageParagraphs_def)
  have r: "revealed ?t1 = 1" and n: "nodes ?t1 = (nodes ?t0)[revealed ?t0 := True]"
    using finale_reveals_next_when_due [of 916 ?t0] c
    by (simp_all add: startFinalTimeline_def)
  have "0 < length (nodes ?t1) \<and> nodes ?t1 ! 0"
    using n by (simp add: startFinalTimeline_def getFinalMessageParagraphs_def)
  then have "nodes (timeline_ticks [3016, 3032] ?t1) ! 0"
    using finale_reveals_next_when_due [of 916 ?t1] by blast
  then show ?thesis using r by simp
qed

text \<open>
  A first tick that comes 10 seconds after the start: the due time of the second segment
  (3000 ms) has elapsed, and the tick leaves that segment hidden.
\<close>

theorem finale_stall_reveals_only_one:
  "baseDelay (startFinalTimeline False 0) + 1 * stepDelay (startFinalTimeline False 0)
     \<le> 10000 - tl_start (startFinalTimeline False 0)
   \<and> \<not> nodes (updateFinalTimeline 10000 (startFinalTimeline False 0)) ! 1"
  by (simp add: updateFinalTimeline_def startFinalTimeline_def getFinalMessageParagraphs_def Let_def)

section \<open>Properties of App\<close>

lemma restore_scene: "scene (state (restore h s)) = scene (state s)"
  by (simp add: restore_def Let_def split_def)

lemma restore_seenFinal:
  "seenFinal (restore h s) = r_seenFinal (fst (load (JSON_parse h) storageKey0 (localStorage s)))"
  by (simp add: restore_def Let_def split_def)

lemma restore_discovered:
  "discovered (state (restore h s)) =
     fold (\<lambda>i d. Set_add (String_of h i) d)
          (discoveredIds (fst (load (JSON_parse h) storageKey0 (localStorage s))))
          (discovered (state s))"
  by (simp add: restore_def Let_def split_def)

text \<open>
  C8 (every load starts at the intro). Whatever the storage holds, the constructor leaves
  the scene at \<open>intro\<close> and the intro screen visible; and \<^verbatim>\<open>_restore()\<close> leaves the
  scene as it finds it.
\<close>

theorem always_starts_at_intro:
  "scene (state (App_new h ls)) = SceneIntro
   \<and> visible (App_new h ls) = Some SceneIntro
   \<and> scene (state (restore h s)) = scene (state s)"
  by (simp add: App_new_def Let_def updateDiaryUi_def restore_scene)

lemma load_storage1:
  "fst (load (JSON_parse host1) storageKey0 storage1)
     = shape (JObj [(''discoveredIds'', JArr (map JStr getMemories)), (''seenFinal'', JBool True)])"
  by (simp add: load_def Let_def storage1_def storageKey0_def host1_def getItem_def)

theorem always_starts_at_intro_witness:
  "seenFinal (App_new host1 storage1)
   \<and> isComplete (state (App_new host1 storage1))
   \<and> scene (state (App_new host1 storage1)) = SceneIntro
   \<and> visible (App_new host1 storage1) = Some SceneIntro"
proof -
  have 1: "seenFinal (App_new host1 storage1)"
    by (simp add: App_new_def Let_def updateDiaryUi_def restore_seenFinal initObjects_def
        load_storage1 shape_def)
  have d: "discoveredIds (fst (load (JSON_parse host1) storageKey0 storage1)) = map JStr getMemories"
    by (simp add: load_storage1 shape_def)
  have f: "fold (\<lambda>i d. Set_add (String_of host1 i) d) (map JStr getMemories) [] = getMemories"
    by (simp add: host1_def getMemories_def Set_add_def)
  have "discovered (state (App_new host1 storage1)) = getMemories"
    by (simp add: App_new_def Let_def updateDiaryUi_def restore_discovered initObjects_def
        GameState_new_def d f)
  moreover have "totalMemories (state (App_new host1 storage1)) = 9"
    by (simp add: App_new_def Let_def updateDiaryUi_def restore_def split_def initObjects_def
        GameState_new_def)
  ultimately have 2: "isComplete (state (App_new host1 storage1))"
    by (simp add: isComplete_def getMemories_def)
  from 1 2 always_starts_at_intro [of host1 storage1] show ?thesis by simp
qed

lemma acknowledgment_distinct: "acknowledgment \<notin> set getInteractionPhrases"
  by (simp add: acknowledgment_def getInteractionPhrases_def)

text \<open>
  C6, amended (tap on a discovered object). For a tap on an object that is already
  discovered, in the world scene with neither the diary nor a mini-game open: the
  mini-game manager and \<^verbatim>\<open>assignedPhrases\<close> are unchanged, so no mini-game is opened;
  if the game is not complete and the completion prompt is hidden, the message shown is
  the acknowledgment, held for 1500 ms; if the game is complete or the completion prompt
  is showing, the tap changes nothing and shows no message. The acknowledgment is none of
  the phrases of the pool.
\<close>

theorem retap_discovered:
  assumes "find (\<lambda>obj. obj_id obj = objectId) (objects s) = Some obj"
    and "obj_discovered obj"
    and "scene (state s) = SceneWorld"
    and "\<not> d_open (diary s)" and "\<not> isOpen (miniGames s)"
  shows "miniGames (handleInteract now objectId s) = miniGames s
       \<and> assignedPhrases (handleInteract now objectId s) = assignedPhrases s
       \<and> (\<not> isComplete (state s) \<and> completeHidden s \<longrightarrow>
            messages (handleInteract now objectId s) = show acknowledgment 1500 now (messages s))
       \<and> (isComplete (state s) \<or> \<not> completeHidden s \<longrightarrow> handleInteract now objectId s = s)
       \<and> acknowledgment \<notin> set getInteractionPhrases"
  using assms acknowledgment_distinct
  by (simp add: handleInteract_def Let_def)

lemma app_one_star:
  "find (\<lambda>obj. obj_id obj = ''star'') (objects app_one)
     = Some \<lparr> obj_id = ''star'', obj_discovered = True, clickAnim = (False, 0) \<rparr>"
  by (simp add: app_one_def getMemories_def InteractiveObject_new_def setDiscovered_def)

theorem retap_discovered_witness:
  "miniGames (handleInteract 5000 ''star'' app_one) = miniGames app_one
   \<and> assignedPhrases (handleInteract 5000 ''star'' app_one) = assignedPhrases app_one
   \<and> messages (handleInteract 5000 ''star'' app_one)
        = show acknowledgment 1500 5000 (messages app_one)"
proof -
  have h: "obj_discovered \<lparr> obj_id = ''star'', obj_discovered = True, clickAnim = (False, 0) \<rparr>"
    "scene (state app_one) = SceneWorld" "\<not> d_open (diary app_one)"
    "\<not> isOpen (miniGames app_one)"
    by (simp_all add: app_one_def GameState_new_def DiarySystem_new_def isOpen_def
        MiniGameManager_new_def)
  have c: "\<not> isComplete (state app_one) \<and> completeHidden app_one"
    by (simp add: app_one_def GameState_new_def isComplete_def)
  from retap_discovered [OF app_one_star h, of 5000] c show ?thesis by simp
qed


text \<open>
  Once all nine objects are discovered, a tap on the star (discovered, world scene, diary
  and mini-game closed, completion prompt dismissed) returns at the completeness guard:
  the message system stays idle and shows no acknowledgment.
\<close>

theorem retap_after_completion_shows_nothing:
  "map obj_discovered (filter (\<lambda>obj. obj_id obj = ''star'') (objects app_done)) = [True]
   \<and> scene (state app_done) = SceneWorld
   \<and> \<not> d_open (diary app_done) \<and> \<not> isOpen (miniGames app_done)
   \<and> phase (messages (handleInteract 5000 ''star'' app_done)) = PhaseIdle
   \<and> current (messages (handleInteract 5000 ''star'' app_done)) \<noteq> acknowledgment"
proof -
  have "isComplete (state app_done)"
    by (simp add: app_done_def GameState_new_def isComplete_def getMemories_def)
  then have "handleInteract 5000 ''star'' app_done = app_done"
    by (simp add: handleInteract_def split: option.splits)
  moreover have "messages app_done = MessageSystem_new"
    by (simp add: app_done_def)
  moreover have "map obj_discovered (filter (\<lambda>obj. obj_id obj = ''star'') (objects app_done)) = [True]"
    by (simp add: app_done_def getMemories_def InteractiveObject_new_def setDiscovered_def)
  moreover have "scene (state app_done) = SceneWorld" "\<not> d_open (diary app_done)"
    "\<not> isOpen (miniGames app_done)"
    by (simp_all add: app_done_def GameState_new_def DiarySystem_new_def isOpen_def
        MiniGameManager_new_def)
  ultimately show ?thesis
    by (simp add: MessageSystem_new_def acknowledgment_def)
qed

end
